theory Spec2Isabelle
  imports Complex_Main "HOL-Library.Sublist"
begin

section \<open>Source mapping of the typst DOM: the rendered tree\<close>

text \<open>
  The development follows \<^verbatim>\<open>tools/typst-dom/src/typst-debug-info.mts\<close>.
  A DOM element is a node with a class list, string attributes and an ordered list of
  child elements. The kinds of \<^verbatim>\<open>SourceMappingType\<close> are a \<^verbatim>\<open>const enum\<close>; a path point
  carries the kind as a number, so \<open>type_code\<close> gives the number of each kind.
  The numbers \<^verbatim>\<open>kind\<close> and \<^verbatim>\<open>index\<close> of a path point are integers on the wire; they are
  modelled as \<open>int\<close>, since nothing in the source keeps them from being negative.
  A thrown \<^verbatim>\<open>TypeError\<close> is the value \<open>Inl TypeError\<close>; the JavaScript value
  \<^verbatim>\<open>undefined\<close> is \<open>None\<close>. Calls of \<^verbatim>\<open>console.log\<close> are left out.
\<close>

datatype js_error = TypeError

datatype SourceMappingType = Text | Group | Image | Shape | Page | CharIndex

fun type_code :: "SourceMappingType \<Rightarrow> int" where
  "type_code Text = 0"
| "type_code Group = 1"
| "type_code Image = 2"
| "type_code Shape = 3"
| "type_code Page = 4"
| "type_code CharIndex = 5"

record ElementPoint =
  kind :: int
  index :: int
  fingerprint :: string

datatype element =
  Element (classList: "string list") (attributes: "(string \<times> string) list")
    (children: "element list")

definition CssClassToType :: "(string \<times> SourceMappingType) list" where
  "CssClassToType =
     [(''typst-text'', Text), (''typst-group'', Group), (''typst-image'', Image),
      (''typst-shape'', Shape), (''typst-page'', Page), (''tsel'', CharIndex)]"

definition castToSourceMappingElement ::
  "element \<Rightarrow> (SourceMappingType \<times> element \<times> string) option" where
  "castToSourceMappingElement elem =
     (if length (classList elem) = 0 then None
      else (case find (\<lambda>(cls, ty). cls \<in> set (classList elem)) CssClassToType of
              Some (cls, ty) \<Rightarrow> Some (ty, elem, '''')
            | None \<Rightarrow> None))"

text \<open>
  The loop of \<^verbatim>\<open>castToNestSourceMappingElement\<close> goes down while the element has no kind
  and exactly one child; it is a recursion on the tree.
\<close>

fun castToNestSourceMappingElement ::
  "element \<Rightarrow> (SourceMappingType \<times> element \<times> string) option" where
  "castToNestSourceMappingElement (Element cls atts chs) =
     (case castToSourceMappingElement (Element cls atts chs) of
        Some result \<Rightarrow> Some result
      | None \<Rightarrow> (case chs of [c] \<Rightarrow> castToNestSourceMappingElement c | _ \<Rightarrow> None))"

text \<open>\<^verbatim>\<open>.filter((x) => x)\<close> on a list of results that may be \<^verbatim>\<open>undefined\<close>.\<close>

fun filter_defined :: "'a option list \<Rightarrow> 'a list" where
  "filter_defined [] = []"
| "filter_defined (None # xs) = filter_defined xs"
| "filter_defined (Some x # xs) = x # filter_defined xs"

definition castChildrenToSourceMappingElement ::
  "element \<Rightarrow> (SourceMappingType \<times> element \<times> string) list" where
  "castChildrenToSourceMappingElement elem =
     filter_defined (map castToNestSourceMappingElement (children elem))"

text \<open>
  \<^verbatim>\<open>elem.getElementsByClassName(name)\<close> lists the descendants of \<open>elem\<close> (not \<open>elem\<close>
  itself) that carry the class, in document order.
\<close>

fun descendants :: "element \<Rightarrow> element list" where
  "descendants (Element cls atts chs) = concat (map (\<lambda>c. c # descendants c) chs)"

definition getElementsByClassName :: "element \<Rightarrow> string \<Rightarrow> element list" where
  "getElementsByClassName elem name =
     filter (\<lambda>d. name \<in> set (classList d)) (descendants elem)"

text \<open>\<^verbatim>\<open>xs[0]\<close> of a JavaScript collection: \<^verbatim>\<open>undefined\<close> when the collection is empty.\<close>

fun first_or_undefined :: "'a list \<Rightarrow> 'a option" where
  "first_or_undefined [] = None"
| "first_or_undefined (x # xs) = Some x"

text \<open>
  The \<^verbatim>\<open>for\<close> loop of \<^verbatim>\<open>resolveSourceLeaf\<close> over \<^verbatim>\<open>path.slice(1)\<close>. The current element
  is \<^verbatim>\<open>undefined\<close> when the tree has no page; reading \<^verbatim>\<open>.children\<close> of it throws, and so
  does reading component \<^verbatim>\<open>[0]\<close> of \<^verbatim>\<open>children[point.index]\<close> when that entry is
  \<^verbatim>\<open>undefined\<close>, which is the case for a negative index: the source only compares the
  index with the length.
\<close>

fun resolve_loop ::
  "element option \<Rightarrow> ElementPoint list \<Rightarrow> js_error + (element option \<times> int) option" where
  "resolve_loop curElem [] = Inr (Some (curElem, 0))"
| "resolve_loop curElem (point # rest) =
     (if kind point = type_code CharIndex then Inr (Some (curElem, index point))
      else (case curElem of
              None \<Rightarrow> Inl TypeError
            | Some cur \<Rightarrow>
                (let chs = castChildrenToSourceMappingElement cur in
                 if index point \<ge> int (length chs) then Inr None
                 else if index point < 0 then Inl TypeError
                 else (case chs ! nat (index point) of
                         (ty, el, _) \<Rightarrow>
                           if kind point \<noteq> type_code ty then Inr None
                           else resolve_loop (Some el) rest))))"

definition resolveSourceLeaf ::
  "element \<Rightarrow> ElementPoint list \<Rightarrow> js_error + (element option \<times> int) option" where
  "resolveSourceLeaf elem path =
     (let page = first_or_undefined (getElementsByClassName elem ''typst-page'') in
      resolve_loop page (drop 1 path))"

subsection \<open>Example trees and paths\<close>

definition ex_group :: element where
  "ex_group = Element [''typst-group''] [(''id'', ''g0'')] []"

definition ex_page :: element where
  "ex_page = Element [''typst-page''] [] [ex_group]"

definition ex_tree :: element where
  "ex_tree = Element [] [] [ex_page]"

definition ex_tree_no_page :: element where
  "ex_tree_no_page = Element [] [] [ex_group]"

definition mk_point :: "int \<Rightarrow> int \<Rightarrow> ElementPoint" where
  "mk_point k i = \<lparr>kind = k, index = i, fingerprint = []\<rparr>"

subsection \<open>Positions in the tree and the insertion of a wrapper\<close>

text \<open>
  A position is the list of child indices leading from an element down to one of its
  descendants. \<open>insert_wrapper wcls watts q e\<close> puts a new element with class list
  \<open>wcls\<close> and attributes \<open>watts\<close> around the node at position \<open>q\<close> of \<open>e\<close>; the node
  becomes the only child of the wrapper. A position that does not exist in the tree
  leaves it as it is. A class list is free of kind tags when it holds none of the six
  classes of \<^verbatim>\<open>CssClassToType\<close>.
\<close>

fun subtree_at :: "element \<Rightarrow> nat list \<Rightarrow> element option" where
  "subtree_at e [] = Some e"
| "subtree_at (Element cls atts chs) (i # q) =
     (if i < length chs then subtree_at (chs ! i) q else None)"

fun insert_wrapper ::
  "string list \<Rightarrow> (string \<times> string) list \<Rightarrow> nat list \<Rightarrow> element \<Rightarrow> element" where
  "insert_wrapper wcls watts [] e = Element wcls watts [e]"
| "insert_wrapper wcls watts (i # q) (Element cls atts chs) =
     (if i < length chs
      then Element cls atts (chs[i := insert_wrapper wcls watts q (chs ! i)])
      else Element cls atts chs)"

definition kind_tag_free :: "string list \<Rightarrow> bool" where
  "kind_tag_free cls = (find (\<lambda>(c, ty). c \<in> set cls) CssClassToType = None)"

text \<open>
  How a node \<open>n\<close> of the tree \<open>ctx\<close> looks after the insertion at position \<open>q\<close>: it is
  unchanged, or the insertion went into it, at the rest \<open>q2\<close> of the position.
\<close>

definition same_node ::
  "string list \<Rightarrow> (string \<times> string) list \<Rightarrow> nat list \<Rightarrow> element \<Rightarrow> element \<Rightarrow> element
     \<Rightarrow> bool" where
  "same_node wcls watts q ctx n n' \<longleftrightarrow>
     n' = n \<or> (\<exists>r q2. q = r @ q2 \<and> q2 \<noteq> [] \<and> subtree_at ctx r = Some n
                \<and> n' = insert_wrapper wcls watts q2 n)"

definition entry_rel ::
  "string list \<Rightarrow> (string \<times> string) list \<Rightarrow> nat list \<Rightarrow> element \<Rightarrow>
   SourceMappingType \<times> element \<times> string \<Rightarrow> SourceMappingType \<times> element \<times> string \<Rightarrow> bool" where
  "entry_rel wcls watts q ctx =
     (\<lambda>(ty, x, s) (ty', x', s'). ty' = ty \<and> s' = s \<and> same_node wcls watts q ctx x x')"

definition outcome_rel ::
  "string list \<Rightarrow> (string \<times> string) list \<Rightarrow> nat list \<Rightarrow> element \<Rightarrow>
   js_error + (element option \<times> int) option \<Rightarrow> js_error + (element option \<times> int) option
     \<Rightarrow> bool" where
  "outcome_rel wcls watts q ctx =
     rel_sum (=) (rel_option (\<lambda>(n, k) (n', k'). k' = k
        \<and> rel_option (same_node wcls watts q ctx) n n'))"

definition first_with_class :: "string \<Rightarrow> element list \<Rightarrow> element option" where
  "first_with_class name xs =
     first_or_undefined (filter (\<lambda>d. name \<in> set (classList d)) xs)"

definition ex_wrapped_tree :: element where
  "ex_wrapped_tree =
     Element [] [] [Element [''typst-page''] [] [Element [''layout''] [] [ex_group]]]"

section \<open>JavaScript numbers and the parsing of attributes\<close>

text \<open>
  The coordinates are JavaScript numbers. A finite number is modelled by the real number
  it stands for; the two infinities and \<^verbatim>\<open>NaN\<close> are values of their own, so that a
  division by zero and a string that is no number give what they give in JavaScript.
  The arithmetic on finite numbers is exact: rounding, overflow and the sign of zero are
  not modelled (zero is \<open>+0\<close>).
\<close>

datatype jsnum = Fin real | PInf | NInf | NaN

fun jneg :: "jsnum \<Rightarrow> jsnum" where
  "jneg (Fin a) = Fin (- a)"
| "jneg PInf = NInf"
| "jneg NInf = PInf"
| "jneg NaN = NaN"

fun jadd :: "jsnum \<Rightarrow> jsnum \<Rightarrow> jsnum" where
  "jadd NaN b = NaN"
| "jadd a NaN = NaN"
| "jadd (Fin a) (Fin b) = Fin (a + b)"
| "jadd PInf NInf = NaN"
| "jadd NInf PInf = NaN"
| "jadd PInf b = PInf"
| "jadd NInf b = NInf"
| "jadd (Fin a) b = b"

definition jsub :: "jsnum \<Rightarrow> jsnum \<Rightarrow> jsnum" where
  "jsub a b = jadd a (jneg b)"

text \<open>The infinity of a given sign; a product or quotient of sign zero is \<^verbatim>\<open>NaN\<close>.\<close>

definition inf_of_sign :: "real \<Rightarrow> jsnum" where
  "inf_of_sign s = (if s > 0 then PInf else if s < 0 then NInf else NaN)"

fun jsign :: "jsnum \<Rightarrow> real" where
  "jsign (Fin a) = sgn a"
| "jsign PInf = 1"
| "jsign NInf = - 1"
| "jsign NaN = 0"

fun jmul :: "jsnum \<Rightarrow> jsnum \<Rightarrow> jsnum" where
  "jmul NaN b = NaN"
| "jmul a NaN = NaN"
| "jmul (Fin a) (Fin b) = Fin (a * b)"
| "jmul a b = inf_of_sign (jsign a * jsign b)"

fun jdiv :: "jsnum \<Rightarrow> jsnum \<Rightarrow> jsnum" where
  "jdiv NaN b = NaN"
| "jdiv a NaN = NaN"
| "jdiv (Fin a) (Fin b) = (if b = 0 then inf_of_sign a else Fin (a / b))"
| "jdiv (Fin a) b = Fin 0"
| "jdiv a (Fin b) = inf_of_sign (jsign a * (if b < 0 then - 1 else 1))"
| "jdiv a b = NaN"

text \<open>The comparisons \<^verbatim>\<open><\<close>, \<^verbatim>\<open>>\<close> and \<^verbatim>\<open>>=\<close>: false as soon as one side is \<^verbatim>\<open>NaN\<close>.\<close>

fun jlt :: "jsnum \<Rightarrow> jsnum \<Rightarrow> bool" where
  "jlt NaN b = False"
| "jlt a NaN = False"
| "jlt (Fin a) (Fin b) = (a < b)"
| "jlt PInf b = False"
| "jlt a NInf = False"
| "jlt a b = True"

definition jgt :: "jsnum \<Rightarrow> jsnum \<Rightarrow> bool" where
  "jgt a b = jlt b a"

fun jge :: "jsnum \<Rightarrow> jsnum \<Rightarrow> bool" where
  "jge NaN b = False"
| "jge a NaN = False"
| "jge a b = (\<not> jlt a b)"

subsection \<open>\<^verbatim>\<open>Number.parseFloat\<close> and \<^verbatim>\<open>Number.parseInt\<close>\<close>

text \<open>
  The two functions are built into the language. They skip leading white space, read an
  optional sign and the longest prefix that is a number, and give \<^verbatim>\<open>NaN\<close> when there is
  none. \<^verbatim>\<open>parseFloat\<close> reads a decimal literal with an optional fraction and exponent, or
  \<^verbatim>\<open>Infinity\<close>; \<^verbatim>\<open>parseInt\<close> without a radix reads decimal digits, or hexadecimal digits
  after \<^verbatim>\<open>0x\<close>. Strings are ASCII here.
\<close>

definition is_space :: "char \<Rightarrow> bool" where
  "is_space c = (c \<in> set [CHR 0x09, CHR 0x0A, CHR 0x0B, CHR 0x0C, CHR 0x0D, CHR 0x20])"

definition is_digit :: "char \<Rightarrow> bool" where
  "is_digit c = (c \<in> set ''0123456789'')"

definition digit_val :: "char \<Rightarrow> nat" where
  "digit_val c =
     (if is_digit c then of_char c - 48
      else if c \<in> set ''abcdef'' then of_char c - 87
      else of_char c - 55)"

definition is_hex_digit :: "char \<Rightarrow> bool" where
  "is_hex_digit c = (is_digit c \<or> c \<in> set ''abcdefABCDEF'')"

definition digits_val :: "nat \<Rightarrow> string \<Rightarrow> nat" where
  "digits_val radix ds = foldl (\<lambda>acc c. radix * acc + digit_val c) 0 ds"

definition strip_sign :: "string \<Rightarrow> bool \<times> string" where
  "strip_sign s =
     (case s of
        [] \<Rightarrow> (False, s)
      | c # r \<Rightarrow> if c = CHR ''-'' then (True, r) else if c = CHR ''+'' then (False, r)
                 else (False, s))"

definition signed :: "bool \<Rightarrow> real \<Rightarrow> real" where
  "signed neg v = (if neg then - v else v)"

definition exponent_part :: "string \<Rightarrow> int" where
  "exponent_part s =
     (case s of
        [] \<Rightarrow> 0
      | c # r \<Rightarrow>
          if c = CHR ''e'' \<or> c = CHR ''E'' then
            (case strip_sign r of
               (neg, t) \<Rightarrow>
                 (let ds = takeWhile is_digit t in
                  if ds = [] then 0
                  else if neg then - int (digits_val 10 ds) else int (digits_val 10 ds)))
          else 0)"

definition scale10 :: "real \<Rightarrow> int \<Rightarrow> real" where
  "scale10 m e = (if e \<ge> 0 then m * 10 ^ nat e else m / 10 ^ nat (- e))"

definition parseFloat :: "string \<Rightarrow> jsnum" where
  "parseFloat s =
     (case strip_sign (dropWhile is_space s) of
        (neg, u) \<Rightarrow>
          if prefix ''Infinity'' u then (if neg then NInf else PInf)
          else
            (let ip = takeWhile is_digit u;
                 r1 = dropWhile is_digit u;
                 dot = (case r1 of [] \<Rightarrow> False | c # r \<Rightarrow> c = CHR ''.'');
                 fp = (if dot then takeWhile is_digit (tl r1) else []);
                 r2 = (if dot then dropWhile is_digit (tl r1) else r1)
             in if ip = [] \<and> fp = [] then NaN
                else Fin (signed neg
                       (scale10 (real (digits_val 10 (ip @ fp)) / 10 ^ length fp)
                          (exponent_part r2)))))"

definition parseInt :: "string \<Rightarrow> jsnum" where
  "parseInt s =
     (case strip_sign (dropWhile is_space s) of
        (neg, u) \<Rightarrow>
          if prefix ''0x'' u \<or> prefix ''0X'' u then
            (let ds = takeWhile is_hex_digit (drop 2 u) in
             if ds = [] then NaN else Fin (signed neg (real (digits_val 16 ds))))
          else
            (let ds = takeWhile is_digit u in
             if ds = [] then NaN else Fin (signed neg (real (digits_val 10 ds)))))"

section \<open>The click locator\<close>

text \<open>
  The locator walks from an element to its parent and to its previous sibling, and
  compares elements by identity. An element of a document is therefore the subtree at
  that element together with its context: for each ancestor, from the nearest one
  upward, the class list and attributes of the ancestor, the siblings to the left
  (nearest first) and the siblings to the right. Two such nodes of one document are equal
  exactly when they are the same element of it.
\<close>

datatype crumb =
  Crumb (left_siblings: "element list") (parent_classList: "string list")
    (parent_attributes: "(string \<times> string) list") (right_siblings: "element list")

type_synonym node = "element \<times> crumb list"

fun parentElement :: "node \<Rightarrow> node option" where
  "parentElement (e, []) = None"
| "parentElement (e, Crumb ls cls atts rs # up) =
     Some (Element cls atts (rev ls @ e # rs), up)"

fun previousElementSibling :: "node \<Rightarrow> node option" where
  "previousElementSibling (e, []) = None"
| "previousElementSibling (e, Crumb [] cls atts rs # up) = None"
| "previousElementSibling (e, Crumb (l # ls) cls atts rs # up) =
     Some (l, Crumb ls cls atts (e # rs) # up)"

text \<open>\<^verbatim>\<open>getAttribute\<close> gives \<^verbatim>\<open>null\<close>, here \<open>None\<close>, for an attribute that is not set.\<close>

definition getAttribute :: "node \<Rightarrow> string \<Rightarrow> string option" where
  "getAttribute elem name = map_of (attributes (fst elem)) name"

definition classList_contains :: "node \<Rightarrow> string \<Rightarrow> bool" where
  "classList_contains elem name = (name \<in> set (classList (fst elem)))"

text \<open>\<^verbatim>\<open>castToSourceMappingElement\<close> on an element of a document: the result holds the element.\<close>

definition castNodeToSourceMappingElement ::
  "node \<Rightarrow> (SourceMappingType \<times> node \<times> string) option" where
  "castNodeToSourceMappingElement elem =
     (case castToSourceMappingElement (fst elem) of
        None \<Rightarrow> None
      | Some (ty, _, s) \<Rightarrow> Some (ty, elem, s))"

text \<open>
  The loop of \<^verbatim>\<open>getNthBackgroundRect\<close> over the element and its previous siblings;
  \<open>None\<close> when the loop ends without a \<^verbatim>\<open>return\<close>. The page number may be \<^verbatim>\<open>null\<close>.
\<close>

function getNthBackgroundRect_loop :: "node \<Rightarrow> string option \<Rightarrow> node option" where
  "getNthBackgroundRect_loop curElem pageNumber =
     (if classList_contains curElem ''typst-page-inner''
         \<and> getAttribute curElem ''data-page-number'' = pageNumber
      then Some curElem
      else (case previousElementSibling curElem of
              None \<Rightarrow> None
            | Some prev \<Rightarrow> getNthBackgroundRect_loop prev pageNumber))"
  by pat_completeness auto
termination
proof (relation "measure (\<lambda>(n, p). case snd n of [] \<Rightarrow> 0 | c # up \<Rightarrow> length (left_siblings c))")
  show "wf (measure (\<lambda>(n, p). case snd n of [] \<Rightarrow> 0 | c # up \<Rightarrow> length (left_siblings c)))"
    by simp
next
  fix curElem :: node and pageNumber :: "string option" and prev :: node
  assume "previousElementSibling curElem = Some prev"
  then show "((prev, pageNumber), (curElem, pageNumber))
      \<in> measure (\<lambda>(n, p). case snd n of [] \<Rightarrow> 0 | c # up \<Rightarrow> length (left_siblings c))"
    by (cases curElem rule: previousElementSibling.cases) auto
qed

definition getNthBackgroundRect :: "node \<Rightarrow> string option \<Rightarrow> node" where
  "getNthBackgroundRect elem pageNumber =
     (case getNthBackgroundRect_loop elem pageNumber of
        Some found \<Rightarrow> found
      | None \<Rightarrow> elem)"

text \<open>
  The \<^verbatim>\<open>while\<close> loop of \<^verbatim>\<open>resolveFrameLoc\<close>. The result is \<open>None\<close> when the loop leaves
  the function by \<^verbatim>\<open>return\<close> at the root of the document view, and otherwise
  \<open>Some mayPageElem\<close> with the value of the variable \<^verbatim>\<open>mayPageElem\<close> when the loop ends:
  by \<^verbatim>\<open>break\<close>, or because there is no parent left.
\<close>

definition is_page_entry :: "(SourceMappingType \<times> node \<times> string) option \<Rightarrow> bool" where
  "is_page_entry mayPageElem =
     (case mayPageElem of None \<Rightarrow> False | Some (ty, _, _) \<Rightarrow> ty = Page)"

function find_page_loop ::
  "node \<Rightarrow> node \<Rightarrow> (SourceMappingType \<times> node \<times> string) option option" where
  "find_page_loop docRoot elem =
     (let mayPageElem = castNodeToSourceMappingElement elem in
      if is_page_entry mayPageElem then Some mayPageElem
      else if elem = docRoot then None
      else (case parentElement elem of
              None \<Rightarrow> Some mayPageElem
            | Some parent \<Rightarrow> find_page_loop docRoot parent))"
  by pat_completeness auto
termination
proof (relation "measure (\<lambda>(r, n). length (snd n))")
  show "wf (measure (\<lambda>(r, n). length (snd n)))" by simp
next
  fix docRoot elem :: node and mayPageElem and parent :: node
  assume "parentElement elem = Some parent"
  then show "((docRoot, parent), (docRoot, elem)) \<in> measure (\<lambda>(r, n). length (snd n))"
    by (cases elem rule: parentElement.cases) auto
qed

record DOMRect =
  rect_left :: jsnum
  rect_top :: jsnum
  rect_width :: jsnum
  rect_height :: jsnum

record MouseEvent =
  clientX :: jsnum
  clientY :: jsnum

record FrameLoc =
  page_no :: jsnum
  loc_x :: jsnum
  loc_y :: jsnum

text \<open>A string or \<^verbatim>\<open>null\<close> is falsy when it is \<^verbatim>\<open>null\<close> or the empty string.\<close>

definition falsy :: "string option \<Rightarrow> bool" where
  "falsy s = (case s of None \<Rightarrow> True | Some t \<Rightarrow> t = [])"

text \<open>
  \<^verbatim>\<open>resolveFrameLoc\<close>. The layout of the browser is the parameter
  \<open>getBoundingClientRect\<close>; the result \<open>None\<close> is \<^verbatim>\<open>undefined\<close>. The fields
  \<^verbatim>\<open>x\<close> and \<^verbatim>\<open>y\<close> of the result are \<open>loc_x\<close> and \<open>loc_y\<close>. The test
  \<^verbatim>\<open>!backgroundRect\<close> of the source has no branch here: \<^verbatim>\<open>getNthBackgroundRect\<close> always
  returns an element.
\<close>

definition resolveFrameLoc ::
  "(node \<Rightarrow> DOMRect) \<Rightarrow> node \<Rightarrow> MouseEvent \<Rightarrow> node \<Rightarrow> FrameLoc option" where
  "resolveFrameLoc getBoundingClientRect docRoot event elem =
     (case find_page_loop docRoot elem of
        None \<Rightarrow> None
      | Some None \<Rightarrow> None
      | Some (Some (ty, pageElem, _)) \<Rightarrow>
          (let pageNumber = getAttribute pageElem ''data-page-number'';
               backgroundRect = getNthBackgroundRect pageElem pageNumber;
               pageRect = getBoundingClientRect backgroundRect;
               pageX = jsub (clientX event) (rect_left pageRect);
               pageY = jsub (clientY event) (rect_top pageRect);
               xPercent = jdiv pageX (rect_width pageRect);
               yPercent = jdiv pageY (rect_height pageRect);
               dataWidthS = getAttribute pageElem ''data-page-width'';
               dataHeightS = getAttribute pageElem ''data-page-height''
           in if falsy pageNumber \<or> falsy dataWidthS \<or> falsy dataHeightS then None
              else (case (pageNumber, dataWidthS, dataHeightS) of
                      (Some pn, Some ws, Some hs) \<Rightarrow>
                        Some \<lparr>page_no = jadd (parseInt pn) (Fin 1),
                              loc_x = jmul xPercent (parseFloat ws),
                              loc_y = jmul yPercent (parseFloat hs)\<rparr>
                    | _ \<Rightarrow> None)))"

section \<open>Effects, the jump handler and scrolling\<close>

text \<open>
  What the functions do to their collaborators is the list of their calls, in order:
  the call of \<^verbatim>\<open>setPartialPageNumber\<close> of the document context, of \<^verbatim>\<open>window.scrollTo\<close>
  with its behaviour and target, of \<^verbatim>\<open>triggerRipple\<close> with its position, class and
  animation (its first argument is always the window root), and of
  \<^verbatim>\<open>window.typstWebsocket.send\<close> with the location it sends. The type \<open>'n\<close> is the
  type of the numbers.
\<close>

datatype 'n effect =
  SetPartialPageNumber 'n
| WindowScrollTo string 'n 'n
| TriggerRipple 'n 'n string string
| WebsocketSend FrameLoc

text \<open>
  \<^verbatim>\<open>ScrollRect\<close> has the fields \<^verbatim>\<open>left\<close>, \<^verbatim>\<open>top\<close>, \<^verbatim>\<open>width\<close> and \<^verbatim>\<open>height\<close> of a
  rectangle. The window is the bounding rectangle of the window root
  (\<^verbatim>\<open>document.body || document.firstElementChild\<close>) and the inner size of the window.
\<close>

record 'n ScrollRect =
  sr_left :: 'n
  sr_top :: 'n
  sr_width :: 'n
  sr_height :: 'n

record 'n Window =
  basePos :: "'n ScrollRect"
  innerWidth :: 'n
  innerHeight :: 'n

text \<open>\<^verbatim>\<open>PreviewMode\<close> is declared in the module \<^verbatim>\<open>typst-doc\<close>; this file only names \<^verbatim>\<open>Slide\<close>.\<close>

datatype PreviewMode = Doc | Slide

text \<open>The body of the click handler that \<^verbatim>\<open>installEditorJumpToHandler\<close> registers.\<close>

definition sourceMappingHandler ::
  "jsnum Window \<Rightarrow> (node \<Rightarrow> DOMRect) \<Rightarrow> node \<Rightarrow> MouseEvent \<Rightarrow> node \<Rightarrow> jsnum effect list" where
  "sourceMappingHandler window getBoundingClientRect docRoot event target =
     (case resolveFrameLoc getBoundingClientRect docRoot event target of
        None \<Rightarrow> []
      | Some frameLoc \<Rightarrow>
          (let left = jsub (clientX event) (sr_left (basePos window));
               top = jsub (clientY event) (sr_top (basePos window))
           in [WebsocketSend frameLoc,
               TriggerRipple left top ''typst-debug-react-ripple''
                 ''typst-debug-react-ripple-effect .4s linear'']))"

text \<open>
  \<^verbatim>\<open>scrollTo\<close> decides between its branches by comparing numbers that it has computed, so
  the rounding of the arithmetic has a part in the decision. The arithmetic of the
  language is therefore a parameter of the method: the number that a decimal literal of
  the source denotes, the four operations and the three comparisons that the method
  uses. What is proved of \<^verbatim>\<open>scrollTo\<close> holds for every arithmetic, that of the double
  precision numbers of JavaScript among them.
\<close>

record 'n arithmetic =
  js_lit :: "real \<Rightarrow> 'n"
  js_add :: "'n \<Rightarrow> 'n \<Rightarrow> 'n"
  js_sub :: "'n \<Rightarrow> 'n \<Rightarrow> 'n"
  js_mul :: "'n \<Rightarrow> 'n \<Rightarrow> 'n"
  js_div :: "'n \<Rightarrow> 'n \<Rightarrow> 'n"
  js_ge :: "'n \<Rightarrow> 'n \<Rightarrow> bool"
  js_lt :: "'n \<Rightarrow> 'n \<Rightarrow> bool"
  js_gt :: "'n \<Rightarrow> 'n \<Rightarrow> bool"

text \<open>The method \<^verbatim>\<open>scrollTo\<close> of the document with the jump capability.\<close>

definition scrollTo ::
  "'n arithmetic \<Rightarrow> 'n Window \<Rightarrow> PreviewMode \<Rightarrow> 'n ScrollRect \<Rightarrow> 'n \<Rightarrow> 'n \<Rightarrow> 'n
     \<Rightarrow> 'n effect list" where
  "scrollTo A window previewMode pageRect pageNo innerLeft innerTop =
     (if previewMode = Slide then [SetPartialPageNumber pageNo]
      else
        (let left = js_sub A innerLeft (sr_left (basePos window));
             top = js_sub A innerTop (sr_top (basePos window));
             pw = js_mul A (innerWidth window) (js_lit A 0.01);
             ph = js_mul A (innerHeight window) (js_lit A 0.01);
             xOffsetInnerFix = js_mul A (js_lit A 7) pw;
             yOffsetInnerFix = js_mul A (js_lit A 38.2) ph;
             xOffset = js_sub A left xOffsetInnerFix;
             yOffset = js_sub A top yOffsetInnerFix;
             widthOccupied =
               js_div A (js_mul A (js_mul A (js_lit A 100) (js_lit A 100)) pw)
                        (sr_width pageRect);
             pageAdjustLeft =
               js_sub A (js_sub A (sr_left pageRect) (sr_left (basePos window)))
                        (js_mul A (js_lit A 5) pw);
             pageAdjust =
               js_sub A (js_add A (js_sub A (sr_left pageRect) (sr_left (basePos window)))
                                  (sr_width pageRect))
                        (js_mul A (js_lit A 95) pw);
             ripple = TriggerRipple left top ''typst-jump-ripple''
                        ''typst-jump-ripple-effect .4s linear''
         in if js_ge A widthOccupied (js_lit A 90) \<or> js_lt A widthOccupied (js_lit A 50)
            then [WindowScrollTo ''smooth'' xOffset yOffset, ripple]
            else
              (let xOffsetAdjsut =
                     (if js_gt A xOffset pageAdjust then pageAdjust else pageAdjustLeft)
               in [WindowScrollTo ''smooth'' xOffsetAdjsut yOffset, ripple])))"

section \<open>Installing and removing the click handler\<close>

text \<open>
  A function object has an identity: the closure that \<^verbatim>\<open>installEditorJumpToHandler\<close>
  creates is new at each call, so it is numbered by a counter of the state; listeners of
  other code are function objects of their own. Each root element, named by a number,
  has the property \<^verbatim>\<open>sourceMappingHandler\<close> (\<open>None\<close> when it has been deleted or never
  set) and its list of event listeners, each with the type of event it listens to.
  \<^verbatim>\<open>addEventListener\<close> does not add a listener that is in the list already, and
  \<^verbatim>\<open>removeEventListener\<close> removes it from the list.
\<close>

datatype listener = SourceMappingHandler nat | OtherListener nat

record HTMLElement_state =
  sourceMappingHandler_property :: "listener option"
  eventListeners :: "(string \<times> listener) list"

record dom_state =
  elements :: "nat \<Rightarrow> HTMLElement_state"
  closures_created :: nat

definition addEventListener :: "nat \<Rightarrow> string \<Rightarrow> listener \<Rightarrow> dom_state \<Rightarrow> dom_state" where
  "addEventListener target type callback s =
     (let st = elements s target;
          ls = eventListeners st
      in if (type, callback) \<in> set ls then s
         else s\<lparr>elements := (elements s)
                  (target := st\<lparr>eventListeners := ls @ [(type, callback)]\<rparr>)\<rparr>)"

definition removeEventListener :: "nat \<Rightarrow> string \<Rightarrow> listener \<Rightarrow> dom_state \<Rightarrow> dom_state" where
  "removeEventListener target type callback s =
     (let st = elements s target
      in s\<lparr>elements := (elements s)
             (target := st\<lparr>eventListeners := removeAll (type, callback) (eventListeners st)\<rparr>)\<rparr>)"

definition removeSourceMappingHandler :: "nat \<Rightarrow> dom_state \<Rightarrow> dom_state" where
  "removeSourceMappingHandler docRoot s =
     (case sourceMappingHandler_property (elements s docRoot) of
        None \<Rightarrow> s
      | Some prevSourceMappingHandler \<Rightarrow>
          (let s1 = removeEventListener docRoot ''click'' prevSourceMappingHandler s
           in s1\<lparr>elements := (elements s1)
                   (docRoot := (elements s1 docRoot)\<lparr>sourceMappingHandler_property := None\<rparr>)\<rparr>))"

definition installEditorJumpToHandler :: "nat \<Rightarrow> dom_state \<Rightarrow> dom_state" where
  "installEditorJumpToHandler docRoot s =
     (let s1 = removeSourceMappingHandler docRoot s;
          handler = SourceMappingHandler (closures_created s1);
          s2 = s1\<lparr>closures_created := Suc (closures_created s1),
                  elements := (elements s1)
                    (docRoot := (elements s1 docRoot)
                       \<lparr>sourceMappingHandler_property := Some handler\<rparr>)\<rparr>
      in addEventListener docRoot ''click'' handler s2)"

text \<open>
  A click on a root calls the listeners of type \<^verbatim>\<open>click\<close> of the root, in order. Each
  call of a jump handler is one attempt to resolve the click.
\<close>

definition click_listeners :: "dom_state \<Rightarrow> nat \<Rightarrow> listener list" where
  "click_listeners s target =
     map snd (filter (\<lambda>(type, callback). type = ''click'') (eventListeners (elements s target)))"

fun is_SourceMappingHandler :: "listener \<Rightarrow> bool" where
  "is_SourceMappingHandler (SourceMappingHandler n) = True"
| "is_SourceMappingHandler (OtherListener n) = False"

definition active_handlers :: "dom_state \<Rightarrow> nat \<Rightarrow> listener list" where
  "active_handlers s target = filter is_SourceMappingHandler (click_listeners s target)"

definition resolution_attempts :: "dom_state \<Rightarrow> nat \<Rightarrow> nat" where
  "resolution_attempts s target = length (active_handlers s target)"

text \<open>
  The state of a root that this file maintains: the jump handlers among its click
  listeners are the one held by the property \<^verbatim>\<open>sourceMappingHandler\<close>, if any.
\<close>

definition handler_registered :: "dom_state \<Rightarrow> nat \<Rightarrow> bool" where
  "handler_registered s target =
     (active_handlers s target =
        (case sourceMappingHandler_property (elements s target) of
           None \<Rightarrow> []
         | Some h \<Rightarrow> [h]))"

text \<open>Any number of installations on one root, one after the other.\<close>

fun install_times :: "nat \<Rightarrow> nat \<Rightarrow> dom_state \<Rightarrow> dom_state" where
  "install_times 0 docRoot s = s"
| "install_times (Suc n) docRoot s = installEditorJumpToHandler docRoot (install_times n docRoot s)"

definition initial_dom_state :: dom_state where
  "initial_dom_state =
     \<lparr>elements = (\<lambda>_. \<lparr>sourceMappingHandler_property = None, eventListeners = []\<rparr>),
      closures_created = 0\<rparr>"

section \<open>Notions used to state the properties of the locator\<close>

text \<open>
  The location that the specification gives for a click: the click at
  \<open>(clickX, clickY)\<close> in the background rectangle \<open>rect\<close>, on the page of index \<open>p\<close>
  with the declared size \<open>W\<close> by \<open>H\<close>.
\<close>

definition click_to_frame_loc ::
  "DOMRect \<Rightarrow> jsnum \<Rightarrow> jsnum \<Rightarrow> jsnum \<Rightarrow> jsnum \<Rightarrow> jsnum \<Rightarrow> FrameLoc" where
  "click_to_frame_loc rect clickX clickY p W H =
     \<lparr>page_no = jadd p (Fin 1),
      loc_x = jmul (jdiv (jsub clickX (rect_left rect)) (rect_width rect)) W,
      loc_y = jmul (jdiv (jsub clickY (rect_top rect)) (rect_height rect)) H\<rparr>"

text \<open>An element and its ancestors, from the element upward.\<close>

function ancestors_or_self :: "node \<Rightarrow> node list" where
  "ancestors_or_self elem =
     elem # (case parentElement elem of None \<Rightarrow> [] | Some parent \<Rightarrow> ancestors_or_self parent)"
  by pat_completeness auto
termination
proof (relation "measure (\<lambda>n. length (snd n))")
  show "wf (measure (\<lambda>n :: node. length (snd n)))" by simp
next
  fix elem parent :: node
  assume "parentElement elem = Some parent"
  then show "(parent, elem) \<in> measure (\<lambda>n. length (snd n))"
    by (cases elem rule: parentElement.cases) auto
qed

definition is_page_node :: "node \<Rightarrow> bool" where
  "is_page_node elem = is_page_entry (castNodeToSourceMappingElement elem)"

subsection \<open>Example documents\<close>

definition ex_text_elem :: element where
  "ex_text_elem = Element [''typst-text''] [] []"

definition ex_group_elem :: element where
  "ex_group_elem = Element [''typst-group''] [] [ex_text_elem]"

definition ex_page_atts :: "string \<Rightarrow> (string \<times> string) list" where
  "ex_page_atts w =
     [(''data-page-number'', ''0''), (''data-page-width'', w), (''data-page-height'', ''800'')]"

definition ex_page_elem :: "string \<Rightarrow> element" where
  "ex_page_elem w = Element [''typst-page''] (ex_page_atts w) [ex_group_elem]"

definition ex_background_elem :: element where
  "ex_background_elem = Element [''typst-page-inner''] [(''data-page-number'', ''0'')] []"

text \<open>
  The nodes of the document
  \<^verbatim>\<open><html><div class="typst-doc"><div class="typst-page-inner" data-page-number="0"/>
  <g class="typst-page" data-page-number="0" data-page-width=w data-page-height="800">
  <g class="typst-group"><g class="typst-text"/></g></g></div></html>\<close>.
\<close>

definition ex_root_crumbs :: "crumb list" where
  "ex_root_crumbs = [Crumb [] [] [] []]"

definition ex_docRoot :: "string \<Rightarrow> node" where
  "ex_docRoot w =
     (Element [''typst-doc''] [] [ex_background_elem, ex_page_elem w], ex_root_crumbs)"

definition ex_page_node :: "string \<Rightarrow> node" where
  "ex_page_node w =
     (ex_page_elem w, Crumb [ex_background_elem] [''typst-doc''] [] [] # ex_root_crumbs)"

definition ex_background_node :: "string \<Rightarrow> node" where
  "ex_background_node w =
     (ex_background_elem, Crumb [] [''typst-doc''] [] [ex_page_elem w] # ex_root_crumbs)"

definition ex_text_node :: "string \<Rightarrow> node" where
  "ex_text_node w =
     (ex_text_elem,
      Crumb [] [''typst-group''] [] [] # Crumb [] [''typst-page''] (ex_page_atts w) []
        # snd (ex_page_node w))"

definition ex_rect :: DOMRect where
  "ex_rect = \<lparr>rect_left = Fin 100, rect_top = Fin 50, rect_width = Fin 200, rect_height = Fin 100\<rparr>"

definition zero_rect :: DOMRect where
  "zero_rect = \<lparr>rect_left = Fin 0, rect_top = Fin 0, rect_width = Fin 0, rect_height = Fin 0\<rparr>"

definition ex_layout :: "string \<Rightarrow> node \<Rightarrow> DOMRect" where
  "ex_layout w n = (if n = ex_background_node w then ex_rect else zero_rect)"

definition ex_click :: MouseEvent where
  "ex_click = \<lparr>clientX = Fin 150, clientY = Fin 75\<rparr>"

text \<open>A page without the attributes of its declared size, taken as target and as root.\<close>

definition ex_bare_page :: node where
  "ex_bare_page = (Element [''typst-page''] [(''data-page-number'', ''0'')] [], ex_root_crumbs)"

section \<open>Notions used to state the properties of scrolling\<close>

text \<open>
  The scroll target as the specification describes it, in the arithmetic \<open>A\<close>.
  \<open>percent_of A k v\<close> is \<open>k\<close> percent of \<open>v\<close>, taken as the source takes it: \<open>k\<close> times
  the hundredth part of \<open>v\<close>. The target point relative to the window root is moved up
  and to the left by 38.2 percent of the height and 7 percent of the width of the
  window: the anchor-adjusted offset. \<open>width_occupied\<close> is the number that the source
  compares with 90 and 50. The right-aligned and the left-aligned adjustment are
  computed from the page rectangle; the first one is also the threshold for the
  anchor-adjusted horizontal offset.
\<close>

definition percent_of :: "'n arithmetic \<Rightarrow> real \<Rightarrow> 'n \<Rightarrow> 'n" where
  "percent_of A k v = js_mul A (js_lit A k) (js_mul A v (js_lit A 0.01))"

definition anchor_adjusted_offset :: "'n arithmetic \<Rightarrow> 'n Window \<Rightarrow> 'n \<Rightarrow> 'n \<Rightarrow> 'n \<times> 'n" where
  "anchor_adjusted_offset A window innerLeft innerTop =
     (js_sub A (js_sub A innerLeft (sr_left (basePos window)))
               (percent_of A 7 (innerWidth window)),
      js_sub A (js_sub A innerTop (sr_top (basePos window)))
               (percent_of A 38.2 (innerHeight window)))"

definition width_occupied :: "'n arithmetic \<Rightarrow> 'n Window \<Rightarrow> 'n ScrollRect \<Rightarrow> 'n" where
  "width_occupied A window pageRect =
     js_div A (js_mul A (js_mul A (js_lit A 100) (js_lit A 100))
                        (js_mul A (innerWidth window) (js_lit A 0.01)))
              (sr_width pageRect)"

definition right_aligned_adjustment :: "'n arithmetic \<Rightarrow> 'n Window \<Rightarrow> 'n ScrollRect \<Rightarrow> 'n" where
  "right_aligned_adjustment A window pageRect =
     js_sub A (js_add A (js_sub A (sr_left pageRect) (sr_left (basePos window)))
                        (sr_width pageRect))
              (percent_of A 95 (innerWidth window))"

definition left_aligned_adjustment :: "'n arithmetic \<Rightarrow> 'n Window \<Rightarrow> 'n ScrollRect \<Rightarrow> 'n" where
  "left_aligned_adjustment A window pageRect =
     js_sub A (js_sub A (sr_left pageRect) (sr_left (basePos window)))
              (percent_of A 5 (innerWidth window))"

definition scroll_target ::
  "'n arithmetic \<Rightarrow> 'n Window \<Rightarrow> 'n ScrollRect \<Rightarrow> 'n \<Rightarrow> 'n \<Rightarrow> 'n \<times> 'n" where
  "scroll_target A window pageRect innerLeft innerTop =
     (let anchor = anchor_adjusted_offset A window innerLeft innerTop;
          occupied = width_occupied A window pageRect
      in if js_ge A occupied (js_lit A 90) \<or> js_lt A occupied (js_lit A 50) then anchor
         else if js_gt A (fst anchor) (right_aligned_adjustment A window pageRect)
              then (right_aligned_adjustment A window pageRect, snd anchor)
              else (left_aligned_adjustment A window pageRect, snd anchor))"

text \<open>
  An arithmetic to compute examples with: the numbers of the locator, exact on finite
  values. On the example windows and page rectangle below, the double precision
  arithmetic gives the same values.
\<close>

definition exact_arithmetic :: "jsnum arithmetic" where
  "exact_arithmetic =
     \<lparr>js_lit = Fin, js_add = jadd, js_sub = jsub, js_mul = jmul, js_div = jdiv,
      js_ge = jge, js_lt = jlt, js_gt = jgt\<rparr>"

definition ex_window :: "real \<Rightarrow> jsnum Window" where
  "ex_window w =
     \<lparr>basePos = \<lparr>sr_left = Fin 0, sr_top = Fin 0, sr_width = Fin w, sr_height = Fin 1000\<rparr>,
      innerWidth = Fin w, innerHeight = Fin 1000\<rparr>"

definition ex_pageRect :: "jsnum ScrollRect" where
  "ex_pageRect =
     \<lparr>sr_left = Fin 0, sr_top = Fin 0, sr_width = Fin 1000, sr_height = Fin 100\<rparr>"

section \<open>Properties of the path resolver\<close>

lemmas resolver_defs =
  resolveSourceLeaf_def getElementsByClassName_def castChildrenToSourceMappingElement_def
  castToSourceMappingElement_def CssClassToType_def

lemmas ex_defs = ex_tree_def ex_page_def ex_group_def ex_tree_no_page_def mk_point_def

subsection \<open>The loop over a path split in two\<close>


lemma resolve_loop_offset_0:
  "\<forall>p\<in>set pre. kind p \<noteq> type_code CharIndex \<Longrightarrow>
   resolve_loop cur pre = Inr (Some (c, k)) \<Longrightarrow> k = 0"
  by (induction pre arbitrary: cur)
     (auto simp: Let_def split: option.splits prod.splits if_splits)



subsection \<open>Strict matching of index and kind\<close>

text \<open>
  An index at or beyond the length of the classified list, and a kind that differs from
  that of the classified entry, both end the resolution with \<^verbatim>\<open>undefined\<close>.
\<close>

lemma resolve_loop_index_too_large:
  assumes "kind point \<noteq> type_code CharIndex"
    and "index point \<ge> int (length (castChildrenToSourceMappingElement cur))"
  shows "resolve_loop (Some cur) (point # rest) = Inr None"
  using assms by simp

lemma resolve_loop_kind_mismatch:
  assumes "kind point \<noteq> type_code CharIndex"
    and "0 \<le> index point"
    and "index point < int (length (castChildrenToSourceMappingElement cur))"
    and "kind point \<noteq> type_code (fst (castChildrenToSourceMappingElement cur ! nat (index point)))"
  shows "resolve_loop (Some cur) (point # rest) = Inr None"
  using assms by (auto simp: Let_def split: prod.splits)

text \<open>
  Claim C2. A negative index is out of range of the classified list as well. The source
  compares the index with the length only, so \<^verbatim>\<open>children[point.index]\<close> is
  \<^verbatim>\<open>undefined\<close> and reading its component \<^verbatim>\<open>[0]\<close> throws: on the page with one group
  child, the path point of kind Group and index \<open>-1\<close> ends in a \<^verbatim>\<open>TypeError\<close>, not in
  \<^verbatim>\<open>undefined\<close>.
\<close>

theorem resolveSourceLeaf_negative_index_throws:
  "resolveSourceLeaf ex_tree [mk_point 4 0, mk_point 1 (- 1)] = Inl TypeError"
  by (simp add: resolver_defs ex_defs)

subsection \<open>A tree without a page\<close>

lemma resolveSourceLeaf_no_page_never_undefined:
  assumes "getElementsByClassName elem ''typst-page'' = []"
  shows "resolveSourceLeaf elem path \<noteq> Inr None"
proof (cases "drop 1 path")
  case Nil
  with assms show ?thesis by (simp add: resolveSourceLeaf_def)
next
  case (Cons p ps)
  with assms show ?thesis by (simp add: resolveSourceLeaf_def)
qed

text \<open>
  Claim C4. In a tree with no element of class \<^verbatim>\<open>typst-page\<close> the current element is
  \<^verbatim>\<open>undefined\<close>. A first point of a spatial kind then makes
  \<^verbatim>\<open>castChildrenToSourceMappingElement\<close> read \<^verbatim>\<open>.children\<close> of \<^verbatim>\<open>undefined\<close>, which
  throws a \<^verbatim>\<open>TypeError\<close>; the path of the root marker alone gives the pair of
  \<^verbatim>\<open>undefined\<close> and 0. Neither is the value \<^verbatim>\<open>undefined\<close> that the other failures
  return.
\<close>

theorem resolveSourceLeaf_no_page_throws:
  "resolveSourceLeaf ex_tree_no_page [mk_point 4 0, mk_point 1 0] = Inl TypeError
   \<and> resolveSourceLeaf ex_tree_no_page [mk_point 4 0] = Inr (Some (None, 0))"
  by (simp add: resolver_defs ex_defs)

subsection \<open>Wrappers with a single child are passed through\<close>

lemma castToSourceMappingElement_None_iff:
  "castToSourceMappingElement e = None \<longleftrightarrow> kind_tag_free (classList e)"
  by (cases "classList e")
     (auto simp: castToSourceMappingElement_def kind_tag_free_def CssClassToType_def
           split: option.splits)

lemma castToSourceMappingElement_Some:
  "castToSourceMappingElement e = Some (ty, x, s) \<Longrightarrow> x = e \<and> s = []"
  by (auto simp: castToSourceMappingElement_def split: option.splits if_splits)

lemma castToSourceMappingElement_classList:
  "classList e' = classList e \<Longrightarrow> castToSourceMappingElement e = Some (ty, x, s) \<Longrightarrow>
   castToSourceMappingElement e' = Some (ty, e', s)"
  by (auto simp: castToSourceMappingElement_def split: option.splits if_splits)

lemma subtree_at_append:
  "subtree_at e r = Some m \<Longrightarrow> subtree_at e (r @ p) = subtree_at m p"
  by (induction e r rule: subtree_at.induct) (auto split: if_splits)

lemma same_node_refl: "same_node wcls watts q ctx n n"
  by (simp add: same_node_def)

lemma same_node_here: "q \<noteq> [] \<Longrightarrow> same_node wcls watts q e e (insert_wrapper wcls watts q e)"
  unfolding same_node_def by (rule disjI2, rule exI [of _ "[]"]) simp

lemma same_node_lift:
  assumes "same_node wcls watts q2 m n n'" and "subtree_at ctx r = Some m" and "q = r @ q2"
  shows "same_node wcls watts q ctx n n'"
proof -
  from assms(1) consider "n' = n"
    | r2 q3 where "q2 = r2 @ q3" "q3 \<noteq> []" "subtree_at m r2 = Some n"
        "n' = insert_wrapper wcls watts q3 n"
    unfolding same_node_def by blast
  then show ?thesis
  proof cases
    case 1
    then show ?thesis by (simp add: same_node_def)
  next
    case 2
    have "subtree_at ctx (r @ r2) = Some n"
      using assms(2) 2(3) by (simp add: subtree_at_append)
    moreover have "q = (r @ r2) @ q3" using assms(3) 2(1) by simp
    ultimately show ?thesis unfolding same_node_def using 2(2,4) by blast
  qed
qed

lemma insert_wrapper_classList:
  "q \<noteq> [] \<Longrightarrow> classList (insert_wrapper wcls watts q e) = classList e"
  by (cases q; cases e) auto

lemma insert_wrapper_length_children:
  "q \<noteq> [] \<Longrightarrow> length (children (insert_wrapper wcls watts q e)) = length (children e)"
  by (cases q; cases e) auto

lemma castToNest_insert_wrapper:
  assumes "kind_tag_free wcls"
  shows "rel_option (entry_rel wcls watts q e)
           (castToNestSourceMappingElement e)
           (castToNestSourceMappingElement (insert_wrapper wcls watts q e))"
proof (induction e arbitrary: q rule: castToNestSourceMappingElement.induct)
  case (1 cls atts chs)
  let ?e = "Element cls atts chs"
  show ?case
  proof (cases q)
    case Nil
    have "castToSourceMappingElement (Element wcls watts [?e]) = None"
      using assms by (simp add: castToSourceMappingElement_None_iff)
    then have "castToNestSourceMappingElement (insert_wrapper wcls watts q ?e)
                 = castToNestSourceMappingElement ?e"
      using Nil by simp
    then show ?thesis
      by (auto simp: option.rel_sel entry_rel_def same_node_refl split: prod.splits)
  next
    case (Cons i q1)
    show ?thesis
    proof (cases "i < length chs")
      case False
      then show ?thesis using Cons
        by (auto simp: option.rel_sel entry_rel_def same_node_refl split: prod.splits)
    next
      case True
      let ?c' = "insert_wrapper wcls watts q1 (chs ! i)"
      let ?e' = "Element cls atts (chs[i := ?c'])"
      have e': "insert_wrapper wcls watts q ?e = ?e'" using Cons True by simp
      show ?thesis
      proof (cases "castToSourceMappingElement ?e")
        case (Some res)
        obtain ty x s where res: "res = (ty, x, s)" by (cases res)
        have x: "x = ?e" using Some res castToSourceMappingElement_Some by blast
        have "castToSourceMappingElement ?e' = Some (ty, ?e', s)"
          using castToSourceMappingElement_classList [of ?e' ?e ty x s] Some res by simp
        moreover have "same_node wcls watts q ?e ?e ?e'"
          using same_node_here [of q wcls watts ?e] Cons e' by simp
        ultimately show ?thesis using Some res x e'
          by (simp add: entry_rel_def)
      next
        case None
        then have None': "castToSourceMappingElement ?e' = None"
          by (simp add: castToSourceMappingElement_None_iff)
        show ?thesis
        proof (cases chs)
          case Nil
          then show ?thesis using True by simp
        next
          case (Cons c cs)
          note chs = this
          show ?thesis
          proof (cases cs)
            case Nil
            then have i0: "i = 0" using True chs by simp
            have IH: "rel_option (entry_rel wcls watts q1 c)
                        (castToNestSourceMappingElement c)
                        (castToNestSourceMappingElement (insert_wrapper wcls watts q1 c))"
              using "1.IH" [OF None chs Nil] .
            have sub: "subtree_at ?e [0] = Some c" using chs by simp
            have lift: "entry_rel wcls watts q1 c a b \<Longrightarrow> entry_rel wcls watts q ?e a b" for a b
              unfolding entry_rel_def
              using same_node_lift [OF _ sub, of wcls watts q1 _ _ q] \<open>q = i # q1\<close> i0
              by (auto split: prod.splits)
            have "rel_option (entry_rel wcls watts q ?e)
                        (castToNestSourceMappingElement c)
                        (castToNestSourceMappingElement (insert_wrapper wcls watts q1 c))"
              using IH lift by (rule option.rel_mono_strong)
            then show ?thesis using None None' e' chs Nil i0 by simp
          next
            case (Cons c2 cs2)
            then show ?thesis using None None' e' chs
              by (cases i; cases "i - 1") (simp_all)
          qed
        qed
      qed
    qed
  qed
qed

lemma filter_defined_append:
  "filter_defined (xs @ ys) = filter_defined xs @ filter_defined ys"
  by (induction xs rule: filter_defined.induct) auto

lemma filter_defined_Cons:
  "filter_defined (x # xs) = filter_defined [x] @ filter_defined xs"
  by (cases x) auto

lemma entry_rel_refl: "entry_rel wcls watts q ctx a a"
  by (auto simp: entry_rel_def same_node_refl split: prod.splits)

lemma filter_defined_rel_option:
  "rel_option R a b \<Longrightarrow> list_all2 R (filter_defined [a]) (filter_defined [b])"
  by (cases a; cases b) auto

lemma castChildren_insert_wrapper:
  assumes "kind_tag_free wcls" and "q \<noteq> []"
  shows "list_all2 (entry_rel wcls watts q e)
           (castChildrenToSourceMappingElement e)
           (castChildrenToSourceMappingElement (insert_wrapper wcls watts q e))"
proof -
  obtain i q1 where q: "q = i # q1" using assms(2) by (cases q) auto
  obtain cls atts chs where e: "e = Element cls atts chs" by (cases e)
  have refl: "list_all2 (entry_rel wcls watts q e) xs xs" for xs
    by (simp add: list_all2_refl entry_rel_refl)
  show ?thesis
  proof (cases "i < length chs")
    case False
    then show ?thesis using q e refl by simp
  next
    case True
    let ?f = castToNestSourceMappingElement
    let ?c = "chs ! i"
    let ?c' = "insert_wrapper wcls watts q1 ?c"
    have split: "chs = take i chs @ ?c # drop (Suc i) chs"
      using True by (rule id_take_nth_drop)
    have upd: "chs[i := ?c'] = take i chs @ ?c' # drop (Suc i) chs"
      using True by (rule upd_conv_take_nth_drop)
    have sub: "subtree_at e [i] = Some ?c" using e True by simp
    have lift: "entry_rel wcls watts q1 ?c a b \<Longrightarrow> entry_rel wcls watts q e a b" for a b
      unfolding entry_rel_def
      using same_node_lift [OF _ sub, of wcls watts q1 _ _ q] q
      by (auto split: prod.splits)
    have "rel_option (entry_rel wcls watts q1 ?c) (?f ?c) (?f ?c')"
      using assms(1) by (rule castToNest_insert_wrapper)
    then have "rel_option (entry_rel wcls watts q e) (?f ?c) (?f ?c')"
      using lift by (rule option.rel_mono_strong)
    then have mid: "list_all2 (entry_rel wcls watts q e)
                      (filter_defined [?f ?c]) (filter_defined [?f ?c'])"
      by (rule filter_defined_rel_option)
    have l: "castChildrenToSourceMappingElement e =
               filter_defined (map ?f (take i chs)) @ filter_defined [?f ?c]
               @ filter_defined (map ?f (drop (Suc i) chs))"
      unfolding castChildrenToSourceMappingElement_def e element.sel
      by (subst split)
         (simp add: filter_defined_append filter_defined_Cons [of _ "map _ _"]
               del: filter_defined.simps)
    have r: "castChildrenToSourceMappingElement (insert_wrapper wcls watts q e) =
               filter_defined (map ?f (take i chs)) @ filter_defined [?f ?c']
               @ filter_defined (map ?f (drop (Suc i) chs))"
      using True
      by (simp add: castChildrenToSourceMappingElement_def e q upd filter_defined_append
                    filter_defined_Cons [of _ "map _ _"]
               del: filter_defined.simps)
    show ?thesis unfolding l r
      by (intro list_all2_appendI refl mid)
  qed
qed

lemma outcome_rel_refl: "outcome_rel wcls watts q ctx (res :: js_error + (element option \<times> int) option) res"
  unfolding outcome_rel_def
  by (intro sum.rel_refl option.rel_refl) (auto simp: same_node_refl intro: option.rel_refl)

lemma outcome_rel_lift:
  assumes "outcome_rel wcls watts q2 m res res'" and "subtree_at ctx r = Some m" and "q = r @ q2"
  shows "outcome_rel wcls watts q ctx res res'"
proof -
  have h: "same_node wcls watts q2 m n n' \<Longrightarrow> same_node wcls watts q ctx n n'" for n n'
    using same_node_lift [OF _ assms(2,3)] .
  show ?thesis
    using assms(1) h unfolding outcome_rel_def
    by (auto elim!: sum.rel_mono_strong option.rel_mono_strong)
qed

lemma resolve_loop_insert_wrapper:
  assumes "kind_tag_free wcls"
  shows "q \<noteq> [] \<Longrightarrow>
         outcome_rel wcls watts q cur
           (resolve_loop (Some cur) pts)
           (resolve_loop (Some (insert_wrapper wcls watts q cur)) pts)"
proof (induction pts arbitrary: cur q)
  case Nil
  then show ?case
    by (simp add: outcome_rel_def same_node_here)
next
  case (Cons p pts)
  let ?cur' = "insert_wrapper wcls watts q cur"
  let ?chs = "castChildrenToSourceMappingElement cur"
  let ?chs' = "castChildrenToSourceMappingElement ?cur'"
  have rel: "list_all2 (entry_rel wcls watts q cur) ?chs ?chs'"
    using assms Cons.prems by (rule castChildren_insert_wrapper)
  then have len: "length ?chs' = length ?chs" by (simp add: list_all2_lengthD)
  show ?case
  proof (cases "kind p = type_code CharIndex")
    case True
    then show ?thesis using Cons.prems
      by (simp add: outcome_rel_def same_node_here)
  next
    case notchar: False
    show ?thesis
    proof (cases "index p \<ge> int (length ?chs) \<or> index p < 0")
      case True
      then show ?thesis using notchar len
        by (auto simp: outcome_rel_def)
    next
      case False
      then have inrange: "nat (index p) < length ?chs" by auto
      obtain ty x s where ent: "?chs ! nat (index p) = (ty, x, s)"
        by (cases "?chs ! nat (index p)")
      obtain ty' x' s' where ent': "?chs' ! nat (index p) = (ty', x', s')"
        by (cases "?chs' ! nat (index p)")
      have "entry_rel wcls watts q cur (?chs ! nat (index p)) (?chs' ! nat (index p))"
        using rel inrange by (rule list_all2_nthD)
      then have ty: "ty' = ty" and sn: "same_node wcls watts q cur x x'"
        using ent ent' by (simp_all add: entry_rel_def)
      show ?thesis
      proof (cases "kind p \<noteq> type_code ty")
        case True
        then show ?thesis using notchar False len ent ent' ty
          by (simp add: outcome_rel_def)
      next
        case kindok: False
        have step: "resolve_loop (Some cur) (p # pts) = resolve_loop (Some x) pts"
          using notchar False ent kindok by simp
        have step': "resolve_loop (Some ?cur') (p # pts) = resolve_loop (Some x') pts"
          using notchar False len ent' ty kindok by simp
        from sn consider "x' = x"
          | r q2 where "q = r @ q2" "q2 \<noteq> []" "subtree_at cur r = Some x"
              "x' = insert_wrapper wcls watts q2 x"
          unfolding same_node_def by blast
        then show ?thesis
        proof cases
          case 1
          then show ?thesis unfolding step step' by (simp add: outcome_rel_refl)
        next
          case 2
          have "outcome_rel wcls watts q2 x (resolve_loop (Some x) pts)
                  (resolve_loop (Some (insert_wrapper wcls watts q2 x)) pts)"
            using 2(2) by (rule Cons.IH)
          then show ?thesis unfolding step step' 2(4)
            using 2(3,1) by (rule outcome_rel_lift)
        qed
      qed
    qed
  qed
qed

lemma first_with_class_append:
  "first_with_class name (xs @ ys) =
     (case first_with_class name xs of Some x \<Rightarrow> Some x | None \<Rightarrow> first_with_class name ys)"
  by (induction xs) (auto simp: first_with_class_def)

lemma first_with_class_Cons:
  "first_with_class name (x # xs) =
     (if name \<in> set (classList x) then Some x else first_with_class name xs)"
  by (simp add: first_with_class_def)

lemma kind_tag_free_page: "kind_tag_free wcls \<Longrightarrow> ''typst-page'' \<notin> set wcls"
  by (auto simp: kind_tag_free_def CssClassToType_def split: if_splits)

lemma descendants_split:
  assumes "i < length chs"
  shows "descendants (Element cls atts (chs[i := c'])) =
           concat (map (\<lambda>c. c # descendants c) (take i chs)) @ (c' # descendants c')
           @ concat (map (\<lambda>c. c # descendants c) (drop (Suc i) chs))"
  using assms by (simp add: upd_conv_take_nth_drop)

lemma first_page_children_step:
  assumes i: "i < length chs"
    and child: "rel_option (same_node wcls watts q1 (chs ! i))
                  (first_with_class name (chs ! i # descendants (chs ! i)))
                  (first_with_class name (c' # descendants c'))"
  shows "rel_option (same_node wcls watts (i # q1) (Element cls atts chs))
           (first_with_class name (descendants (Element cls atts chs)))
           (first_with_class name (descendants (Element cls atts (chs[i := c']))))"
proof -
  let ?e = "Element cls atts chs"
  let ?A = "concat (map (\<lambda>c. c # descendants c) (take i chs))"
  let ?C = "concat (map (\<lambda>c. c # descendants c) (drop (Suc i) chs))"
  have l: "descendants ?e = ?A @ (chs ! i # descendants (chs ! i)) @ ?C"
    using descendants_split [OF i, of cls atts "chs ! i"] by simp
  have r: "descendants (Element cls atts (chs[i := c'])) = ?A @ (c' # descendants c') @ ?C"
    using i by (rule descendants_split)
  have sub: "subtree_at ?e [i] = Some (chs ! i)" using i by simp
  have lift: "same_node wcls watts q1 (chs ! i) n n' \<Longrightarrow>
              same_node wcls watts (i # q1) ?e n n'" for n n'
    using same_node_lift [OF _ sub, of wcls watts q1 n n' "i # q1"] by simp
  have mid: "rel_option (same_node wcls watts (i # q1) ?e)
                  (first_with_class name (chs ! i # descendants (chs ! i)))
                  (first_with_class name (c' # descendants c'))"
    using child lift by (rule option.rel_mono_strong)
  show ?thesis
    unfolding l r first_with_class_append [of name ?A]
      first_with_class_append [of name "_ # _" ?C]
    using mid
    by (auto simp: option.rel_sel same_node_refl split: option.splits)
qed

lemma first_page_insert_wrapper_self:
  assumes "name \<notin> set wcls"
  shows "rel_option (same_node wcls watts q e)
           (first_with_class name (e # descendants e))
           (first_with_class name (insert_wrapper wcls watts q e
              # descendants (insert_wrapper wcls watts q e)))"
proof (induction e arbitrary: q rule: descendants.induct)
  case (1 cls atts chs)
  let ?e = "Element cls atts chs"
  show ?case
  proof (cases q)
    case Nil
    then show ?thesis using assms
      by (auto simp: first_with_class_Cons option.rel_sel same_node_refl
               intro: option.rel_refl)
  next
    case (Cons i q1)
    show ?thesis
    proof (cases "i < length chs")
      case False
      then show ?thesis using Cons
        by (auto simp: same_node_refl intro: option.rel_refl)
    next
      case True
      let ?c' = "insert_wrapper wcls watts q1 (chs ! i)"
      have e': "insert_wrapper wcls watts q ?e = Element cls atts (chs[i := ?c'])"
        using Cons True by simp
      show ?thesis
      proof (cases "name \<in> set cls")
        case True
        have "same_node wcls watts q ?e ?e (insert_wrapper wcls watts q ?e)"
          using Cons by (intro same_node_here) simp
        then show ?thesis using True unfolding e'
          by (simp add: first_with_class_Cons)
      next
        case False
        have "rel_option (same_node wcls watts q1 (chs ! i))
                (first_with_class name (chs ! i # descendants (chs ! i)))
                (first_with_class name (?c' # descendants ?c'))"
          using True by (intro "1.IH") simp
        with True have "rel_option (same_node wcls watts (i # q1) ?e)
           (first_with_class name (descendants ?e))
           (first_with_class name (descendants (Element cls atts (chs[i := ?c']))))"
          by (rule first_page_children_step)
        then show ?thesis using False Cons unfolding e'
          by (simp add: first_with_class_Cons del: descendants.simps)
      qed
    qed
  qed
qed

lemma first_page_insert_wrapper:
  assumes "name \<notin> set wcls" and "q \<noteq> []"
  shows "rel_option (same_node wcls watts q e)
           (first_with_class name (descendants e))
           (first_with_class name (descendants (insert_wrapper wcls watts q e)))"
proof -
  obtain i q1 where q: "q = i # q1" using assms(2) by (cases q) auto
  obtain cls atts chs where e: "e = Element cls atts chs" by (cases e)
  show ?thesis
  proof (cases "i < length chs")
    case False
    then show ?thesis using q e
      by (auto simp: same_node_refl intro: option.rel_refl)
  next
    case True
    let ?c' = "insert_wrapper wcls watts q1 (chs ! i)"
    have "rel_option (same_node wcls watts q1 (chs ! i))
            (first_with_class name (chs ! i # descendants (chs ! i)))
            (first_with_class name (?c' # descendants ?c'))"
      using assms(1) by (rule first_page_insert_wrapper_self)
    with True have "rel_option (same_node wcls watts (i # q1) (Element cls atts chs))
           (first_with_class name (descendants (Element cls atts chs)))
           (first_with_class name (descendants (Element cls atts (chs[i := ?c']))))"
      by (rule first_page_children_step)
    then show ?thesis using True q e by (simp del: descendants.simps)
  qed
qed

lemma resolve_loop_Some_result:
  "resolve_loop (Some cur) pts = Inr (Some (n, k)) \<Longrightarrow> n \<noteq> None"
  by (induction pts arbitrary: cur)
     (auto simp: Let_def split: if_splits prod.splits)

lemma resolveSourceLeaf_insert_wrapper:
  assumes free: "kind_tag_free wcls" and q: "q \<noteq> []"
  shows "outcome_rel wcls watts q elem
           (resolveSourceLeaf elem path)
           (resolveSourceLeaf (insert_wrapper wcls watts q elem) path)"
proof -
  let ?page = "first_with_class ''typst-page'' (descendants elem)"
  let ?page' = "first_with_class ''typst-page'' (descendants (insert_wrapper wcls watts q elem))"
  have res: "resolveSourceLeaf t path
               = resolve_loop (first_with_class ''typst-page'' (descendants t)) (drop 1 path)" for t
    by (simp add: resolveSourceLeaf_def getElementsByClassName_def first_with_class_def)
  have pages: "rel_option (same_node wcls watts q elem) ?page ?page'"
    using kind_tag_free_page [OF free] q by (rule first_page_insert_wrapper)
  show ?thesis
  proof (cases ?page)
    case None
    with pages have "?page' = None" by (simp add: option.rel_sel)
    with None show ?thesis unfolding res by (simp add: outcome_rel_refl)
  next
    case (Some pg)
    with pages obtain pg' where pg': "?page' = Some pg'"
      and sn: "same_node wcls watts q elem pg pg'"
      by (cases ?page') auto
    from sn consider "pg' = pg"
      | r q2 where "q = r @ q2" "q2 \<noteq> []" "subtree_at elem r = Some pg"
          "pg' = insert_wrapper wcls watts q2 pg"
      unfolding same_node_def by blast
    then show ?thesis
    proof cases
      case 1
      then show ?thesis unfolding res Some pg' by (simp add: outcome_rel_refl)
    next
      case 2
      have "outcome_rel wcls watts q2 pg (resolve_loop (Some pg) (drop 1 path))
              (resolve_loop (Some (insert_wrapper wcls watts q2 pg)) (drop 1 path))"
        using free 2(2) by (rule resolve_loop_insert_wrapper)
      then show ?thesis unfolding res Some pg' 2(4)
        using 2(3,1) by (rule outcome_rel_lift)
    qed
  qed
qed

lemma size_nth_children:
  "i < length chs \<Longrightarrow> size (chs ! i) < size (Element cls atts chs)"
  by (simp add: less_Suc_eq_le size_list_estimation' [OF nth_mem])

lemma subtree_at_size:
  "subtree_at e p = Some e' \<Longrightarrow> p \<noteq> [] \<Longrightarrow> size e' < size e"
proof (induction e p arbitrary: e' rule: subtree_at.induct)
  case (1 e)
  then show ?case by simp
next
  case (2 cls atts chs i q)
  then have i: "i < length chs" and sub: "subtree_at (chs ! i) q = Some e'"
    by (auto split: if_splits)
  show ?case
  proof (cases q)
    case Nil
    with sub i show ?thesis using size_nth_children [of i chs cls atts] by simp
  next
    case (Cons j q')
    then have "size e' < size (chs ! i)" using "2.IH" [OF i sub] by simp
    then show ?thesis using size_nth_children [OF i, of cls atts] by simp
  qed
qed

text \<open>
  Every element that the resolver returns is at a position of the tree it was given,
  below the root.
\<close>

lemma castToNest_position:
  "castToNestSourceMappingElement e = Some (ty, x, s) \<Longrightarrow> \<exists>r. subtree_at e r = Some x"
proof (induction e rule: castToNestSourceMappingElement.induct)
  case (1 cls atts chs)
  let ?e = "Element cls atts chs"
  show ?case
  proof (cases "castToSourceMappingElement ?e")
    case (Some res)
    with 1 have "x = ?e" using castToSourceMappingElement_Some [of ?e ty x s] by simp
    then have "subtree_at ?e [] = Some x" by simp
    then show ?thesis by blast
  next
    case None
    with "1.prems" obtain c where chs: "chs = [c]"
      and c: "castToNestSourceMappingElement c = Some (ty, x, s)"
      by (auto split: list.splits)
    from "1.IH" [OF None chs _ c] chs obtain r where "subtree_at c r = Some x" by auto
    then have "subtree_at ?e (0 # r) = Some x" using chs by simp
    then show ?thesis by blast
  qed
qed

lemma filter_defined_mem:
  "x \<in> set (filter_defined (map f xs)) \<Longrightarrow> \<exists>c\<in>set xs. f c = Some x"
proof (induction xs)
  case Nil
  then show ?case by simp
next
  case (Cons a xs)
  then show ?case by (cases "f a") auto
qed

lemma subtree_at_child:
  assumes "c \<in> set chs" and "subtree_at c r = Some x"
  shows "\<exists>r'. r' \<noteq> [] \<and> subtree_at (Element cls atts chs) r' = Some x"
proof -
  from assms(1) obtain i where "i < length chs" "chs ! i = c" by (auto simp: in_set_conv_nth)
  then have "subtree_at (Element cls atts chs) (i # r) = Some x" using assms(2) by simp
  then show ?thesis by blast
qed

lemma castChildren_position:
  assumes "(ty, x, s) \<in> set (castChildrenToSourceMappingElement e)"
  shows "\<exists>r. r \<noteq> [] \<and> subtree_at e r = Some x"
proof -
  obtain cls atts chs where e: "e = Element cls atts chs" by (cases e)
  from assms obtain c where "c \<in> set chs" "castToNestSourceMappingElement c = Some (ty, x, s)"
    unfolding castChildrenToSourceMappingElement_def e using filter_defined_mem by fastforce
  then show ?thesis unfolding e using castToNest_position subtree_at_child by blast
qed

lemma resolve_loop_position:
  "resolve_loop (Some cur) pts = Inr (Some (Some n, k)) \<Longrightarrow> \<exists>r. subtree_at cur r = Some n"
proof (induction pts arbitrary: cur)
  case Nil
  then have "subtree_at cur [] = Some n" by simp
  then show ?case by blast
next
  case (Cons p pts)
  show ?case
  proof (cases "kind p = type_code CharIndex")
    case True
    with Cons.prems have "subtree_at cur [] = Some n" by simp
    then show ?thesis by blast
  next
    case False
    let ?chs = "castChildrenToSourceMappingElement cur"
    from Cons.prems False have rng: "nat (index p) < length ?chs"
      by (auto simp: Let_def split: if_splits)
    obtain ty x s where ent: "?chs ! nat (index p) = (ty, x, s)" by (cases "?chs ! nat (index p)")
    from Cons.prems False ent have "resolve_loop (Some x) pts = Inr (Some (Some n, k))"
      by (auto simp: Let_def split: if_splits)
    then obtain r2 where r2: "subtree_at x r2 = Some n" using Cons.IH by blast
    have "(ty, x, s) \<in> set ?chs" using rng ent by (metis nth_mem)
    then obtain r1 where "subtree_at cur r1 = Some x" using castChildren_position by blast
    then have "subtree_at cur (r1 @ r2) = Some n" using r2 by (simp add: subtree_at_append)
    then show ?thesis by blast
  qed
qed

lemma descendants_position:
  "d \<in> set (descendants e) \<Longrightarrow> \<exists>r. r \<noteq> [] \<and> subtree_at e r = Some d"
proof (induction e arbitrary: d rule: descendants.induct)
  case (1 cls atts chs)
  from "1.prems" obtain c where c: "c \<in> set chs" and d: "d = c \<or> d \<in> set (descendants c)"
    by auto
  from d have "\<exists>r. subtree_at c r = Some d"
  proof
    assume "d = c"
    then have "subtree_at c [] = Some d" by simp
    then show ?thesis by blast
  next
    assume "d \<in> set (descendants c)"
    then show ?thesis using "1.IH" [OF c] by blast
  qed
  then show ?case using subtree_at_child [OF c] by blast
qed

lemma first_or_undefined_mem: "first_or_undefined xs = Some x \<Longrightarrow> x \<in> set xs"
  by (cases xs) auto

lemma resolveSourceLeaf_position:
  assumes "resolveSourceLeaf elem path = Inr (Some (Some n, k))"
  shows "\<exists>r. r \<noteq> [] \<and> subtree_at elem r = Some n"
proof -
  let ?page = "first_or_undefined (getElementsByClassName elem ''typst-page'')"
  from assms have loop: "resolve_loop ?page (drop 1 path) = Inr (Some (Some n, k))"
    by (simp add: resolveSourceLeaf_def)
  show ?thesis
  proof (cases ?page)
    case None
    with loop show ?thesis by (cases "drop 1 path") (auto split: if_splits)
  next
    case (Some pg)
    then have "pg \<in> set (getElementsByClassName elem ''typst-page'')"
      by (rule first_or_undefined_mem)
    then have "pg \<in> set (descendants elem)"
      by (simp add: getElementsByClassName_def)
    then obtain r1 where r1: "r1 \<noteq> []" "subtree_at elem r1 = Some pg"
      using descendants_position by blast
    from loop Some have "resolve_loop (Some pg) (drop 1 path) = Inr (Some (Some n, k))"
      by simp
    then obtain r2 where "subtree_at pg r2 = Some n"
      using resolve_loop_position by blast
    then have "subtree_at elem (r1 @ r2) = Some n" using r1(2) by (simp add: subtree_at_append)
    then show ?thesis using r1(1) by (intro exI [of _ "r1 @ r2"]) simp
  qed
qed

lemma castToNest_wrapper:
  assumes "kind_tag_free wcls"
  shows "castToNestSourceMappingElement (Element wcls watts [c]) = castToNestSourceMappingElement c"
proof -
  have "castToSourceMappingElement (Element wcls watts [c]) = None"
    using assms by (simp add: castToSourceMappingElement_None_iff)
  then show ?thesis by simp
qed

lemma castToNest_dead_end:
  assumes "kind_tag_free wcls" and "length chs \<noteq> 1"
  shows "castToNestSourceMappingElement (Element wcls watts chs) = None"
proof -
  have "castToSourceMappingElement (Element wcls watts chs) = None"
    using assms(1) by (simp add: castToSourceMappingElement_None_iff)
  then show ?thesis using assms(2) by (auto split: list.splits)
qed

text \<open>
  Claim C3. Let the resolution of \<open>path\<close> in the tree \<open>elem\<close> succeed with the node \<open>n\<close>,
  and let a wrapper whose class list has no kind tag be put around a node at position
  \<open>q\<close>, below the root of the tree and on the way down to \<open>n\<close> (\<open>q\<close> is a prefix of a
  position \<open>r\<close> of \<open>n\<close>); every node of the descent from the page to \<open>n\<close>, and \<open>n\<close>
  itself, is at such a position. Then the resolution in the new tree gives the same
  result. The classification goes through a wrapper with one child to that child, and
  an element without kind tag whose number of children is not one is left out of the
  classified list of its parent.
\<close>

theorem insert_wrapper_passes_through:
  assumes free: "kind_tag_free wcls"
  shows "(resolveSourceLeaf elem path = Inr (Some (Some n, k)) \<and> q \<noteq> [] \<and> prefix q r
            \<and> subtree_at elem r = Some n
          \<longrightarrow> resolveSourceLeaf (insert_wrapper wcls watts q elem) path
                = resolveSourceLeaf elem path)
       \<and> castToNestSourceMappingElement (Element wcls watts [c])
           = castToNestSourceMappingElement c
       \<and> (length chs \<noteq> 1 \<longrightarrow>
            castChildrenToSourceMappingElement (Element cls atts (ls @ Element wcls watts chs # rs))
              = castChildrenToSourceMappingElement (Element cls atts (ls @ rs)))"
proof (intro conjI impI)
  assume a: "resolveSourceLeaf elem path = Inr (Some (Some n, k)) \<and> q \<noteq> [] \<and> prefix q r
            \<and> subtree_at elem r = Some n"
  then have ok: "resolveSourceLeaf elem path = Inr (Some (Some n, k))" and q: "q \<noteq> []"
    and pre: "prefix q r" and at: "subtree_at elem r = Some n" by simp_all
  have "outcome_rel wcls watts q elem (resolveSourceLeaf elem path)
          (resolveSourceLeaf (insert_wrapper wcls watts q elem) path)"
    using free q by (rule resolveSourceLeaf_insert_wrapper)
  then obtain n' where res': "resolveSourceLeaf (insert_wrapper wcls watts q elem) path
                                = Inr (Some (Some n', k))"
    and sn: "same_node wcls watts q elem n n'"
    unfolding ok outcome_rel_def
    by (auto simp: option.rel_sel split: option.splits prod.splits elim!: rel_sum.cases)
  from sn consider "n' = n"
    | r0 q2 where "q = r0 @ q2" "q2 \<noteq> []" "subtree_at elem r0 = Some n"
    unfolding same_node_def by blast
  then have "n' = n"
  proof cases
    case 1
    then show ?thesis .
  next
    case 2
    from pre obtain s where "r = q @ s" by (auto simp: prefix_def)
    then have "r = r0 @ (q2 @ s)" using 2(1) by simp
    then have "subtree_at n (q2 @ s) = Some n"
      using at subtree_at_append [OF 2(3), of "q2 @ s"] by simp
    moreover have "q2 @ s \<noteq> []" using 2(2) by simp
    ultimately have "size n < size n" by (rule subtree_at_size)
    then show ?thesis by simp
  qed
  with res' ok show "resolveSourceLeaf (insert_wrapper wcls watts q elem) path
                = resolveSourceLeaf elem path" by simp
next
  show "castToNestSourceMappingElement (Element wcls watts [c])
           = castToNestSourceMappingElement c"
    using free by (rule castToNest_wrapper)
next
  assume "length chs \<noteq> 1"
  with free have "castToNestSourceMappingElement (Element wcls watts chs) = None"
    by (rule castToNest_dead_end)
  then show "castChildrenToSourceMappingElement (Element cls atts (ls @ Element wcls watts chs # rs))
              = castChildrenToSourceMappingElement (Element cls atts (ls @ rs))"
    by (simp add: castChildrenToSourceMappingElement_def filter_defined_append)
qed

theorem insert_wrapper_passes_through_witness:
  "kind_tag_free [''layout'']
   \<and> resolveSourceLeaf ex_tree [mk_point 4 0, mk_point 1 0] = Inr (Some (Some ex_group, 0))
   \<and> prefix [0, 0] [0, 0::nat]
   \<and> subtree_at ex_tree [0, 0] = Some ex_group
   \<and> insert_wrapper [''layout''] [] [0, 0] ex_tree = ex_wrapped_tree
   \<and> resolveSourceLeaf ex_wrapped_tree [mk_point 4 0, mk_point 1 0]
        = Inr (Some (Some ex_group, 0))
   \<and> castChildrenToSourceMappingElement
        (Element [''typst-page''] [] ([ex_group] @ Element [''layout''] [] [] # [ex_group]))
        = [(Group, ex_group, []), (Group, ex_group, [])]"
proof -
  have free: "kind_tag_free [''layout'']"
    by (simp add: kind_tag_free_def CssClassToType_def)
  have ok: "resolveSourceLeaf ex_tree [mk_point 4 0, mk_point 1 0] = Inr (Some (Some ex_group, 0))"
    by (simp add: resolver_defs ex_defs)
  have pre: "prefix [0, 0] [0, 0::nat]" by simp
  have at: "subtree_at ex_tree [0, 0] = Some ex_group" by (simp add: ex_defs)
  have ins: "insert_wrapper [''layout''] [] [0, 0] ex_tree = ex_wrapped_tree"
    by (simp add: ex_defs ex_wrapped_tree_def)
  have two: "castChildrenToSourceMappingElement (Element [''typst-page''] [] ([ex_group] @ [ex_group]))
        = [(Group, ex_group, []), (Group, ex_group, [])]"
    by (simp add: resolver_defs ex_defs)
  note inst = insert_wrapper_passes_through [OF free, of ex_tree "[mk_point 4 0, mk_point 1 0]"
      ex_group 0 "[0, 0]" "[0, 0]" "[]" ex_group "[]" "[''typst-page'']" "[]" "[ex_group]" "[ex_group]"]
  from inst free ok pre at ins two show ?thesis by simp
qed

section \<open>Properties of the click locator\<close>

lemmas number_defs =
  parseFloat_def parseInt_def strip_sign_def is_space_def is_digit_def is_hex_digit_def
  digits_val_def digit_val_def exponent_part_def scale10_def signed_def
  jsub_def inf_of_sign_def jgt_def

lemmas locator_defs =
  resolveFrameLoc_def getNthBackgroundRect_def getAttribute_def classList_contains_def
  castNodeToSourceMappingElement_def castToSourceMappingElement_def CssClassToType_def
  is_page_entry_def falsy_def

lemmas ex_doc_defs =
  ex_text_elem_def ex_group_elem_def ex_page_atts_def ex_page_elem_def ex_background_elem_def
  ex_root_crumbs_def ex_docRoot_def ex_page_node_def ex_background_node_def ex_text_node_def
  ex_rect_def zero_rect_def ex_layout_def ex_click_def
  ex_bare_page_def

declare find_page_loop.simps [simp del] ancestors_or_self.simps [simp del]

lemma ex_find_page:
  "find_page_loop (ex_docRoot w) (ex_text_node w) = Some (Some (Page, ex_page_node w, []))"
  by (simp add: find_page_loop.simps locator_defs ex_doc_defs)

lemma ex_background:
  "getNthBackgroundRect (ex_page_node w) (Some ''0'') = ex_background_node w"
  by (simp add: locator_defs ex_doc_defs)

lemma ex_resolve:
  "resolveFrameLoc (ex_layout ''600'') (ex_docRoot ''600'') ex_click (ex_text_node ''600'')
     = Some \<lparr>page_no = Fin 1, loc_x = Fin 150, loc_y = Fin 200\<rparr>"
  by (simp add: find_page_loop.simps locator_defs ex_doc_defs number_defs)

text \<open>
  Claim C5. When the resolution of a click succeeds, there is the element that the
  ascent stopped at, it has the three attributes, and the result is the location that
  the specification gives: for the bounding rectangle of the background element, the
  click point, the page index \<open>parseInt pn\<close> and the declared size
  \<open>parseFloat ws\<close> by \<open>parseFloat hs\<close>. For the rectangle at \<open>(100, 50)\<close> of size
  \<open>200\<close> by \<open>100\<close>, the click at \<open>(150, 75)\<close> and the declared size \<open>600\<close> by \<open>800\<close>
  the location is \<open>(150, 200)\<close> on the page \<open>p + 1\<close>.
\<close>

theorem resolveFrameLoc_result:
  assumes "resolveFrameLoc getBoundingClientRect docRoot event elem = Some loc"
  shows "(\<exists>ty pageElem s pn ws hs.
            find_page_loop docRoot elem = Some (Some (ty, pageElem, s))
          \<and> getAttribute pageElem ''data-page-number'' = Some pn
          \<and> getAttribute pageElem ''data-page-width'' = Some ws
          \<and> getAttribute pageElem ''data-page-height'' = Some hs
          \<and> loc = click_to_frame_loc
                    (getBoundingClientRect (getNthBackgroundRect pageElem (Some pn)))
                    (clientX event) (clientY event)
                    (parseInt pn) (parseFloat ws) (parseFloat hs))
       \<and> click_to_frame_loc
            \<lparr>rect_left = Fin 100, rect_top = Fin 50, rect_width = Fin 200, rect_height = Fin 100\<rparr>
            (Fin 150) (Fin 75) p (Fin 600) (Fin 800)
          = \<lparr>page_no = jadd p (Fin 1), loc_x = Fin 150, loc_y = Fin 200\<rparr>"
proof
  from assms obtain ty pageElem s
    where found: "find_page_loop docRoot elem = Some (Some (ty, pageElem, s))"
    by (auto simp: resolveFrameLoc_def split: option.splits)
  from assms found obtain pn ws hs
    where pn: "getAttribute pageElem ''data-page-number'' = Some pn"
      and ws: "getAttribute pageElem ''data-page-width'' = Some ws"
      and hs: "getAttribute pageElem ''data-page-height'' = Some hs"
    by (auto simp: resolveFrameLoc_def Let_def split: option.splits if_splits)
  from assms found pn ws hs
  have "loc = click_to_frame_loc
                (getBoundingClientRect (getNthBackgroundRect pageElem (Some pn)))
                (clientX event) (clientY event) (parseInt pn) (parseFloat ws) (parseFloat hs)"
    by (auto simp: resolveFrameLoc_def click_to_frame_loc_def Let_def split: if_splits)
  with found pn ws hs
  show "\<exists>ty pageElem s pn ws hs.
            find_page_loop docRoot elem = Some (Some (ty, pageElem, s))
          \<and> getAttribute pageElem ''data-page-number'' = Some pn
          \<and> getAttribute pageElem ''data-page-width'' = Some ws
          \<and> getAttribute pageElem ''data-page-height'' = Some hs
          \<and> loc = click_to_frame_loc
                    (getBoundingClientRect (getNthBackgroundRect pageElem (Some pn)))
                    (clientX event) (clientY event)
                    (parseInt pn) (parseFloat ws) (parseFloat hs)"
    by blast
next
  show "click_to_frame_loc
            \<lparr>rect_left = Fin 100, rect_top = Fin 50, rect_width = Fin 200, rect_height = Fin 100\<rparr>
            (Fin 150) (Fin 75) p (Fin 600) (Fin 800)
          = \<lparr>page_no = jadd p (Fin 1), loc_x = Fin 150, loc_y = Fin 200\<rparr>"
    by (simp add: click_to_frame_loc_def jsub_def)
qed

theorem resolveFrameLoc_result_witness:
  "resolveFrameLoc (ex_layout ''600'') (ex_docRoot ''600'') ex_click (ex_text_node ''600'')
     = Some \<lparr>page_no = Fin 1, loc_x = Fin 150, loc_y = Fin 200\<rparr>
   \<and> \<lparr>page_no = Fin 1, loc_x = Fin 150, loc_y = Fin 200\<rparr>
       = click_to_frame_loc ex_rect (Fin 150) (Fin 75)
           (parseInt ''0'') (parseFloat ''600'') (parseFloat ''800'')"
proof -
  let ?w = "''600''"
  from resolveFrameLoc_result [OF ex_resolve]
  obtain ty pageElem s pn ws hs
    where found: "find_page_loop (ex_docRoot ?w) (ex_text_node ?w) = Some (Some (ty, pageElem, s))"
      and pn: "getAttribute pageElem ''data-page-number'' = Some pn"
      and ws: "getAttribute pageElem ''data-page-width'' = Some ws"
      and hs: "getAttribute pageElem ''data-page-height'' = Some hs"
      and loc: "\<lparr>page_no = Fin 1, loc_x = Fin 150, loc_y = Fin 200\<rparr>
                  = click_to_frame_loc
                      (ex_layout ?w (getNthBackgroundRect pageElem (Some pn)))
                      (clientX ex_click) (clientY ex_click)
                      (parseInt pn) (parseFloat ws) (parseFloat hs)"
    by blast
  from found [unfolded ex_find_page] have page: "pageElem = ex_page_node ?w" by simp
  from pn page have "pn = ''0''" by (simp add: getAttribute_def ex_doc_defs)
  moreover from ws page have "ws = ''600''" by (simp add: getAttribute_def ex_doc_defs)
  moreover from hs page have "hs = ''800''" by (simp add: getAttribute_def ex_doc_defs)
  moreover have "ex_layout ?w (getNthBackgroundRect (ex_page_node ?w) (Some ''0'')) = ex_rect"
    by (simp add: ex_background ex_layout_def)
  ultimately show ?thesis using loc page ex_resolve by (simp add: ex_click_def)
qed

text \<open>
  Claim C6, as stated, fails: the source tests the three attribute strings for being
  \<^verbatim>\<open>null\<close> or empty and does not look at the numbers parsed from them. On the
  example page with \<^verbatim>\<open>data-page-width="abc"\<close> the width parses to \<^verbatim>\<open>NaN\<close> and the
  click resolves to a location whose \<^verbatim>\<open>x\<close> is \<^verbatim>\<open>NaN\<close>.
\<close>

theorem resolveFrameLoc_unparseable_width:
  "getAttribute (ex_page_node ''abc'') ''data-page-width'' = Some ''abc''
   \<and> parseFloat ''abc'' = NaN
   \<and> resolveFrameLoc (ex_layout ''abc'') (ex_docRoot ''abc'') ex_click (ex_text_node ''abc'')
       = Some \<lparr>page_no = Fin 1, loc_x = NaN, loc_y = Fin 200\<rparr>"
  by (simp add: find_page_loop.simps locator_defs ex_doc_defs number_defs)

text \<open>
  Claim C6, amended. When the page-number attribute, the declared width or the declared
  height of the element that the ascent stopped at is missing or empty, the resolution
  of the click gives \<^verbatim>\<open>undefined\<close>.
\<close>

theorem resolveFrameLoc_missing_attribute:
  assumes "find_page_loop docRoot elem = Some (Some (ty, pageElem, s))"
    and "falsy (getAttribute pageElem ''data-page-number'')
         \<or> falsy (getAttribute pageElem ''data-page-width'')
         \<or> falsy (getAttribute pageElem ''data-page-height'')"
  shows "resolveFrameLoc getBoundingClientRect docRoot event elem = None"
  using assms by (auto simp: resolveFrameLoc_def Let_def)

theorem resolveFrameLoc_missing_attribute_witness:
  "find_page_loop ex_bare_page ex_bare_page = Some (Some (Page, ex_bare_page, []))
   \<and> getAttribute ex_bare_page ''data-page-width'' = None
   \<and> resolveFrameLoc (\<lambda>n. ex_rect) ex_bare_page ex_click ex_bare_page = None"
proof -
  have a: "find_page_loop ex_bare_page ex_bare_page = Some (Some (Page, ex_bare_page, []))"
    by (simp add: find_page_loop.simps locator_defs ex_doc_defs)
  have b: "getAttribute ex_bare_page ''data-page-width'' = None"
    by (simp add: getAttribute_def ex_doc_defs)
  then have c: "falsy (getAttribute ex_bare_page ''data-page-number'')
         \<or> falsy (getAttribute ex_bare_page ''data-page-width'')
         \<or> falsy (getAttribute ex_bare_page ''data-page-height'')"
    by (simp add: falsy_def)
  from resolveFrameLoc_missing_attribute [OF a c] a b show ?thesis by simp
qed

subsection \<open>The ascent to the page\<close>

text \<open>
  One round of the loop of the ascent: it stops at an element classified as a page,
  returns at the root of the document view, and goes on with the parent otherwise. When
  there is no parent, the loop ends with the classification of the last element.
\<close>

lemma find_page_loop_page:
  "is_page_node elem \<Longrightarrow> find_page_loop docRoot elem = Some (Some (Page, elem, []))"
  by (auto simp: find_page_loop.simps is_page_node_def is_page_entry_def
        castNodeToSourceMappingElement_def
        split: option.splits dest: castToSourceMappingElement_Some)


lemma find_page_loop_step:
  "\<not> is_page_node elem \<Longrightarrow> elem \<noteq> docRoot \<Longrightarrow> parentElement elem = Some parent \<Longrightarrow>
   find_page_loop docRoot elem = find_page_loop docRoot parent"
  by (simp add: find_page_loop.simps is_page_node_def)

lemma find_page_loop_top:
  "\<not> is_page_node elem \<Longrightarrow> elem \<noteq> docRoot \<Longrightarrow> parentElement elem = None \<Longrightarrow>
   find_page_loop docRoot elem = Some (castNodeToSourceMappingElement elem)"
  by (simp add: find_page_loop.simps is_page_node_def)


text \<open>
  When the root of the document view is not on the way up, the loop runs out of
  ancestors. Without a page on the way, the variable \<^verbatim>\<open>mayPageElem\<close> then holds the
  classification of the topmost ancestor, which need not be \<^verbatim>\<open>undefined\<close>.
\<close>

lemma find_page_loop_outside_root:
  assumes "docRoot \<notin> set (ancestors_or_self elem)"
  shows "find_page_loop docRoot elem =
           (case find is_page_node (ancestors_or_self elem) of
              None \<Rightarrow> Some (castNodeToSourceMappingElement (last (ancestors_or_self elem)))
            | Some pageElem \<Rightarrow> Some (Some (Page, pageElem, [])))"
  using assms
proof (induction elem rule: ancestors_or_self.induct)
  case (1 elem)
  from "1.prems" have notroot: "elem \<noteq> docRoot"
    by (subst (asm) ancestors_or_self.simps) auto
  show ?case
  proof (cases "is_page_node elem")
    case True
    then show ?thesis
      by (subst ancestors_or_self.simps) (simp add: find_page_loop_page)
  next
    case notpage: False
    show ?thesis
    proof (cases "parentElement elem")
      case None
      then have "ancestors_or_self elem = [elem]" by (subst ancestors_or_self.simps) simp
      then show ?thesis using notpage notroot None by (simp add: find_page_loop_top)
    next
      case (Some parent)
      then have anc: "ancestors_or_self elem = elem # ancestors_or_self parent"
        by (subst ancestors_or_self.simps) simp
      with "1.prems" have "docRoot \<notin> set (ancestors_or_self parent)" by simp
      then have IH: "find_page_loop docRoot parent =
           (case find is_page_node (ancestors_or_self parent) of
              None \<Rightarrow> Some (castNodeToSourceMappingElement (last (ancestors_or_self parent)))
            | Some pageElem \<Rightarrow> Some (Some (Page, pageElem, [])))"
        using "1.IH" [OF Some] by simp
      have "ancestors_or_self parent \<noteq> []" by (subst ancestors_or_self.simps) simp
      then have l: "last (ancestors_or_self elem) = last (ancestors_or_self parent)"
        using anc by simp
      have f: "find is_page_node (ancestors_or_self elem)
                 = find is_page_node (ancestors_or_self parent)"
        using anc notpage by simp
      have st: "find_page_loop docRoot elem = find_page_loop docRoot parent"
        using notpage notroot Some by (rule find_page_loop_step)
      show ?thesis unfolding l f st by (rule IH)
    qed
  qed
qed



section \<open>Properties of scrolling\<close>

lemmas scroll_spec_defs =
  scroll_target_def anchor_adjusted_offset_def width_occupied_def
  right_aligned_adjustment_def left_aligned_adjustment_def percent_of_def

text \<open>
  Claim C8. Outside of the slide mode, and in every arithmetic, \<^verbatim>\<open>scrollTo\<close> scrolls the
  window smoothly to the scroll target of the specification and then triggers the
  ripple at the target point. When the occupied width is at least 90 or less than 50,
  the target is the anchor-adjusted offset, whatever the horizontal offset is.
  Otherwise its horizontal part is the right-aligned adjustment when the
  anchor-adjusted horizontal offset exceeds that threshold, and the left-aligned
  adjustment when it does not; the vertical part is the anchor-adjusted one. The target
  is a function of the window, the page rectangle and the target point: the page number
  has no part in it.
\<close>

theorem scrollTo_target:
  assumes "previewMode \<noteq> Slide"
  shows "scrollTo A window previewMode pageRect pageNo innerLeft innerTop =
           [WindowScrollTo ''smooth''
              (fst (scroll_target A window pageRect innerLeft innerTop))
              (snd (scroll_target A window pageRect innerLeft innerTop)),
            TriggerRipple (js_sub A innerLeft (sr_left (basePos window)))
              (js_sub A innerTop (sr_top (basePos window)))
              ''typst-jump-ripple'' ''typst-jump-ripple-effect .4s linear'']
       \<and> ((js_ge A (width_occupied A window pageRect) (js_lit A 90)
            \<or> js_lt A (width_occupied A window pageRect) (js_lit A 50))
           \<longrightarrow> scroll_target A window pageRect innerLeft innerTop
                 = anchor_adjusted_offset A window innerLeft innerTop)
       \<and> (\<not> (js_ge A (width_occupied A window pageRect) (js_lit A 90)
               \<or> js_lt A (width_occupied A window pageRect) (js_lit A 50))
           \<longrightarrow> scroll_target A window pageRect innerLeft innerTop
                 = (if js_gt A (fst (anchor_adjusted_offset A window innerLeft innerTop))
                              (right_aligned_adjustment A window pageRect)
                    then right_aligned_adjustment A window pageRect
                    else left_aligned_adjustment A window pageRect,
                    snd (anchor_adjusted_offset A window innerLeft innerTop)))
       \<and> scrollTo A window previewMode pageRect pageNo' innerLeft innerTop
           = scrollTo A window previewMode pageRect pageNo innerLeft innerTop"
proof (intro conjI)
  show "scrollTo A window previewMode pageRect pageNo innerLeft innerTop =
           [WindowScrollTo ''smooth''
              (fst (scroll_target A window pageRect innerLeft innerTop))
              (snd (scroll_target A window pageRect innerLeft innerTop)),
            TriggerRipple (js_sub A innerLeft (sr_left (basePos window)))
              (js_sub A innerTop (sr_top (basePos window)))
              ''typst-jump-ripple'' ''typst-jump-ripple-effect .4s linear'']"
    using assms unfolding scrollTo_def scroll_spec_defs Let_def
    by simp
next
  show "(js_ge A (width_occupied A window pageRect) (js_lit A 90)
            \<or> js_lt A (width_occupied A window pageRect) (js_lit A 50))
           \<longrightarrow> scroll_target A window pageRect innerLeft innerTop
                 = anchor_adjusted_offset A window innerLeft innerTop"
    by (simp add: scroll_target_def Let_def)
next
  show "\<not> (js_ge A (width_occupied A window pageRect) (js_lit A 90)
               \<or> js_lt A (width_occupied A window pageRect) (js_lit A 50))
           \<longrightarrow> scroll_target A window pageRect innerLeft innerTop
                 = (if js_gt A (fst (anchor_adjusted_offset A window innerLeft innerTop))
                              (right_aligned_adjustment A window pageRect)
                    then right_aligned_adjustment A window pageRect
                    else left_aligned_adjustment A window pageRect,
                    snd (anchor_adjusted_offset A window innerLeft innerTop))"
    by (simp add: scroll_target_def Let_def)
next
  show "scrollTo A window previewMode pageRect pageNo' innerLeft innerTop
           = scrollTo A window previewMode pageRect pageNo innerLeft innerTop"
    using assms by (simp add: scrollTo_def)
qed

lemmas ex_scroll_defs =
  exact_arithmetic_def ex_window_def ex_pageRect_def jsub_def jgt_def

lemma ex_occupied_70: "width_occupied exact_arithmetic (ex_window 700) ex_pageRect = Fin 70"
  by (simp add: width_occupied_def ex_scroll_defs)

lemma ex_occupied_95: "width_occupied exact_arithmetic (ex_window 950) ex_pageRect = Fin 95"
  by (simp add: width_occupied_def ex_scroll_defs)

theorem scrollTo_target_witness:
  "Doc \<noteq> Slide
   \<and> width_occupied exact_arithmetic (ex_window 950) ex_pageRect = Fin 95
   \<and> scrollTo exact_arithmetic (ex_window 950) Doc ex_pageRect (Fin 1) (Fin 10) (Fin 500)
       = [WindowScrollTo ''smooth'' (Fin (- 56.5)) (Fin 118),
          TriggerRipple (Fin 10) (Fin 500)
            ''typst-jump-ripple'' ''typst-jump-ripple-effect .4s linear'']
   \<and> width_occupied exact_arithmetic (ex_window 700) ex_pageRect = Fin 70
   \<and> scrollTo exact_arithmetic (ex_window 700) Doc ex_pageRect (Fin 1) (Fin 10) (Fin 500)
       = [WindowScrollTo ''smooth'' (Fin (- 35)) (Fin 118),
          TriggerRipple (Fin 10) (Fin 500)
            ''typst-jump-ripple'' ''typst-jump-ripple-effect .4s linear'']
   \<and> scrollTo exact_arithmetic (ex_window 700) Doc ex_pageRect (Fin 1) (Fin 900) (Fin 500)
       = [WindowScrollTo ''smooth'' (Fin 335) (Fin 118),
          TriggerRipple (Fin 900) (Fin 500)
            ''typst-jump-ripple'' ''typst-jump-ripple-effect .4s linear'']"
proof -
  have m: "Doc \<noteq> Slide" by simp
  have t1: "scroll_target exact_arithmetic (ex_window 950) ex_pageRect (Fin 10) (Fin 500)
              = (Fin (- 56.5), Fin 118)"
    by (simp add: scroll_spec_defs ex_scroll_defs)
  have t2: "scroll_target exact_arithmetic (ex_window 700) ex_pageRect (Fin 10) (Fin 500)
              = (Fin (- 35), Fin 118)"
    by (simp add: scroll_spec_defs ex_scroll_defs)
  have t3: "scroll_target exact_arithmetic (ex_window 700) ex_pageRect (Fin 900) (Fin 500)
              = (Fin 335, Fin 118)"
    by (simp add: scroll_spec_defs ex_scroll_defs)
  have b: "js_sub exact_arithmetic v (sr_left (basePos (ex_window w))) = jsub v (Fin 0)"
          "js_sub exact_arithmetic v (sr_top (basePos (ex_window w))) = jsub v (Fin 0)" for v w
    by (simp_all add: exact_arithmetic_def ex_window_def)
  from scrollTo_target [OF m, of exact_arithmetic "ex_window 950" ex_pageRect
         "Fin 1" "Fin 10" "Fin 500" "Fin 1"]
       scrollTo_target [OF m, of exact_arithmetic "ex_window 700" ex_pageRect
         "Fin 1" "Fin 10" "Fin 500" "Fin 1"]
       scrollTo_target [OF m, of exact_arithmetic "ex_window 700" ex_pageRect
         "Fin 1" "Fin 900" "Fin 500" "Fin 1"]
  show ?thesis
    unfolding t1 t2 t3 b ex_occupied_70 ex_occupied_95
    by (simp add: jsub_def)
qed

text \<open>
  Claim C10. In the slide mode \<^verbatim>\<open>scrollTo\<close> calls \<^verbatim>\<open>setPartialPageNumber\<close> with the page
  number and does nothing else: there is no call of \<^verbatim>\<open>window.scrollTo\<close> and none of
  \<^verbatim>\<open>triggerRipple\<close>, and neither the page rectangle nor the target point nor the window
  is read.
\<close>

theorem scrollTo_slide:
  "scrollTo A window Slide pageRect pageNo innerLeft innerTop = [SetPartialPageNumber pageNo]"
  by (simp add: scrollTo_def)

section \<open>Properties of the installation of the handler\<close>

lemma click_handlers_removeAll:
  "filter P (map snd (filter (\<lambda>(type, callback). type = ''click'')
                        (removeAll (''click'', h) ls)))
     = removeAll h (filter P (map snd (filter (\<lambda>(type, callback). type = ''click'') ls)))"
  by (induction ls) auto

lemma active_handlers_remove:
  "active_handlers (removeEventListener docRoot ''click'' h s) docRoot
     = removeAll h (active_handlers s docRoot)"
  by (simp add: active_handlers_def click_listeners_def removeEventListener_def Let_def
        click_handlers_removeAll)

lemma removeSourceMappingHandler_clears:
  assumes "handler_registered s docRoot"
  shows "active_handlers (removeSourceMappingHandler docRoot s) docRoot = []
       \<and> sourceMappingHandler_property (elements (removeSourceMappingHandler docRoot s) docRoot)
           = None"
proof (cases "sourceMappingHandler_property (elements s docRoot)")
  case None
  with assms show ?thesis
    by (simp add: removeSourceMappingHandler_def handler_registered_def)
next
  case (Some h)
  with assms have act: "active_handlers s docRoot = [h]"
    by (simp add: handler_registered_def)
  have "active_handlers (removeSourceMappingHandler docRoot s) docRoot
          = active_handlers (removeEventListener docRoot ''click'' h s) docRoot"
    using Some
    by (simp add: removeSourceMappingHandler_def Let_def active_handlers_def click_listeners_def)
  also have "\<dots> = []" by (simp add: active_handlers_remove act)
  finally show ?thesis using Some
    by (simp add: removeSourceMappingHandler_def Let_def)
qed

lemma removeSourceMappingHandler_closures:
  "closures_created (removeSourceMappingHandler docRoot s) = closures_created s"
  by (simp add: removeSourceMappingHandler_def removeEventListener_def Let_def
        split: option.splits)

lemma active_handlers_not_listed:
  assumes "active_handlers s docRoot = []"
  shows "(''click'', SourceMappingHandler n) \<notin> set (eventListeners (elements s docRoot))"
proof
  assume "(''click'', SourceMappingHandler n) \<in> set (eventListeners (elements s docRoot))"
  then have "SourceMappingHandler n \<in> set (active_handlers s docRoot)"
    by (force simp: active_handlers_def click_listeners_def)
  with assms show False by simp
qed

lemma installEditorJumpToHandler_one:
  assumes "handler_registered s docRoot"
  shows "active_handlers (installEditorJumpToHandler docRoot s) docRoot
           = [SourceMappingHandler (closures_created s)]
       \<and> sourceMappingHandler_property (elements (installEditorJumpToHandler docRoot s) docRoot)
           = Some (SourceMappingHandler (closures_created s))"
proof -
  let ?s1 = "removeSourceMappingHandler docRoot s"
  let ?h = "SourceMappingHandler (closures_created s)"
  let ?s2 = "?s1\<lparr>closures_created := Suc (closures_created ?s1),
                  elements := (elements ?s1)
                    (docRoot := (elements ?s1 docRoot)
                       \<lparr>sourceMappingHandler_property := Some ?h\<rparr>)\<rparr>"
  have none: "active_handlers ?s1 docRoot = []"
    using removeSourceMappingHandler_clears [OF assms] by simp
  have ls2: "eventListeners (elements ?s2 docRoot) = eventListeners (elements ?s1 docRoot)"
    by simp
  have notin: "(''click'', ?h) \<notin> set (eventListeners (elements ?s2 docRoot))"
    unfolding ls2 using none by (rule active_handlers_not_listed)
  have inst: "installEditorJumpToHandler docRoot s = addEventListener docRoot ''click'' ?h ?s2"
    by (simp add: installEditorJumpToHandler_def Let_def removeSourceMappingHandler_closures)
  have "active_handlers (addEventListener docRoot ''click'' ?h ?s2) docRoot
          = active_handlers ?s1 docRoot @ [?h]"
    using notin
    by (simp add: addEventListener_def Let_def active_handlers_def click_listeners_def)
  moreover have "sourceMappingHandler_property
                   (elements (addEventListener docRoot ''click'' ?h ?s2) docRoot) = Some ?h"
    using notin by (simp add: addEventListener_def Let_def)
  ultimately show ?thesis unfolding inst using none by simp
qed

lemma installEditorJumpToHandler_registered:
  assumes "handler_registered s docRoot"
  shows "handler_registered (installEditorJumpToHandler docRoot s) docRoot"
  using installEditorJumpToHandler_one [OF assms] by (simp add: handler_registered_def)

lemma install_times_registered:
  assumes "handler_registered s docRoot"
  shows "handler_registered (install_times n docRoot s) docRoot"
  using assms by (induction n) (simp_all add: installEditorJumpToHandler_registered)

lemma installEditorJumpToHandler_other_root:
  "other \<noteq> docRoot \<Longrightarrow> elements (installEditorJumpToHandler docRoot s) other = elements s other"
  by (simp add: installEditorJumpToHandler_def removeSourceMappingHandler_def
        removeEventListener_def addEventListener_def Let_def split: option.splits)

text \<open>
  Claim C9. On a root in the state that this file maintains, any number of
  installations, one or more, leave exactly one jump handler among the click listeners
  of the root, the one that the property \<^verbatim>\<open>sourceMappingHandler\<close> holds, so that one click
  makes one attempt to resolve it; and after a removal the root has no jump handler
  among its click listeners and the property is gone.
\<close>

theorem install_handler_idempotent:
  assumes "handler_registered s docRoot"
  shows "resolution_attempts (install_times (Suc n) docRoot s) docRoot = 1
       \<and> (\<exists>h. active_handlers (install_times (Suc n) docRoot s) docRoot = [h]
              \<and> sourceMappingHandler_property
                   (elements (install_times (Suc n) docRoot s) docRoot) = Some h)
       \<and> active_handlers
           (removeSourceMappingHandler docRoot (install_times n docRoot s)) docRoot = []
       \<and> sourceMappingHandler_property
           (elements (removeSourceMappingHandler docRoot (install_times n docRoot s)) docRoot)
           = None"
proof -
  have reg: "handler_registered (install_times n docRoot s) docRoot"
    using assms by (rule install_times_registered)
  note one = installEditorJumpToHandler_one [OF reg]
  note rem = removeSourceMappingHandler_clears [OF reg]
  from one have "resolution_attempts (install_times (Suc n) docRoot s) docRoot = 1"
    by (simp add: resolution_attempts_def)
  with one rem show ?thesis by simp
qed

theorem install_handler_idempotent_witness:
  "handler_registered initial_dom_state 0
   \<and> resolution_attempts (install_times (Suc 1) 0 initial_dom_state) 0 = 1
   \<and> click_listeners (install_times (Suc 1) 0 initial_dom_state) 0 = [SourceMappingHandler 1]
   \<and> active_handlers
       (removeSourceMappingHandler 0 (install_times 1 0 initial_dom_state)) 0 = []"
proof -
  have reg: "handler_registered initial_dom_state 0"
    by (simp add: handler_registered_def active_handlers_def click_listeners_def
          initial_dom_state_def)
  have cl: "click_listeners (install_times (Suc 1) 0 initial_dom_state) 0
              = [SourceMappingHandler 1]"
    by (simp add: installEditorJumpToHandler_def removeSourceMappingHandler_def
          removeEventListener_def addEventListener_def click_listeners_def
          initial_dom_state_def Let_def)
  from install_handler_idempotent [OF reg, of 1] reg cl show ?thesis by simp
qed

end
